theory Spec2Isabelle
  imports Main "HOL-Library.Word"
begin

section \<open>Data: Python text, bytes and exceptions\<close>

text \<open>
  The program under study is the script \<^verbatim>\<open>fix_encoding.py\<close>. A Python \<^verbatim>\<open>str\<close> is a
  sequence of Unicode code points, a \<^verbatim>\<open>bytes\<close> object a sequence of octets. Messages that
  the script prints are ASCII and kept as HOL strings.
\<close>

type_synonym byte = "8 word"
type_synonym pystr = "nat list"

text \<open>A code point of a Python \<^verbatim>\<open>str\<close> is at most U+10FFFF.\<close>

definition is_pystr :: "pystr \<Rightarrow> bool" where
  "is_pystr s = list_all (\<lambda>c. c \<le> 0x10FFFF) s"

text \<open>
  The exceptions the script can meet, with the arguments Python stores in them:
  encoding, object, start, end and reason for the two Unicode errors; errno, strerror and
  filename for \<^verbatim>\<open>OSError\<close> (whose subclasses \<^verbatim>\<open>FileNotFoundError\<close> and
  \<^verbatim>\<open>PermissionError\<close> differ by errno only). \<^verbatim>\<open>KeyboardInterrupt\<close> stands for the
  exceptions that derive from \<^verbatim>\<open>BaseException\<close> but not from \<^verbatim>\<open>Exception\<close>.
\<close>

datatype exn =
    UnicodeEncodeError string pystr nat nat string
  | UnicodeDecodeError string "byte list" nat nat string
  | OSError nat string "string option"
  | KeyboardInterrupt

fun is_Exception :: "exn \<Rightarrow> bool" where
  "is_Exception KeyboardInterrupt = False"
| "is_Exception _ = True"

section \<open>Rendering of exceptions (\<^verbatim>\<open>str(e)\<close>)\<close>

definition hex_digit :: "nat \<Rightarrow> char" where
  "hex_digit d = ''0123456789abcdef'' ! (d mod 16)"

fun hex_fixed :: "nat \<Rightarrow> nat \<Rightarrow> string" where
  "hex_fixed 0 n = []"
| "hex_fixed (Suc w) n = hex_fixed w (n div 16) @ [hex_digit n]"

function str_nat :: "nat \<Rightarrow> string" where
  "str_nat n = (if n < 10 then [hex_digit n] else str_nat (n div 10) @ [hex_digit (n mod 10)])"
  by pat_completeness auto
termination
  by (relation "measure id") auto

declare str_nat.simps [simp del]

definition squote :: string where
  "squote = [CHR 0x27]"

definition backslash :: char where
  "backslash = CHR 0x5C"

text \<open>\<^verbatim>\<open>repr\<close> of a file name without quotes or control characters: backslashes are doubled.\<close>

definition repr_path :: "string \<Rightarrow> string" where
  "repr_path p = squote @ concat (map (\<lambda>c. if c = backslash then [c, c] else [c]) p) @ squote"

definition escape_char :: "nat \<Rightarrow> string" where
  "escape_char c =
     (if c \<le> 0xFF then backslash # ''x'' @ hex_fixed 2 c
      else if c \<le> 0xFFFF then backslash # ''u'' @ hex_fixed 4 c
      else backslash # ''U'' @ hex_fixed 8 c)"

fun str_exn :: "exn \<Rightarrow> string" where
  "str_exn (UnicodeEncodeError enc obj start end reason) =
     (if start < length obj \<and> end = start + 1
      then squote @ enc @ squote @ '' codec can't encode character '' @ squote
           @ escape_char (obj ! start) @ squote @ '' in position '' @ str_nat start
           @ '': '' @ reason
      else squote @ enc @ squote @ '' codec can't encode characters in position ''
           @ str_nat start @ ''-'' @ str_nat (end - 1) @ '': '' @ reason)"
| "str_exn (UnicodeDecodeError enc obj start end reason) =
     (if start < length obj \<and> end = start + 1
      then squote @ enc @ squote @ '' codec can't decode byte 0x''
           @ hex_fixed 2 (unat (obj ! start)) @ '' in position '' @ str_nat start
           @ '': '' @ reason
      else squote @ enc @ squote @ '' codec can't decode bytes in position ''
           @ str_nat start @ ''-'' @ str_nat (end - 1) @ '': '' @ reason)"
| "str_exn (OSError errno strerror None) =
     ''[Errno '' @ str_nat errno @ ''] '' @ strerror"
| "str_exn (OSError errno strerror (Some filename)) =
     ''[Errno '' @ str_nat errno @ ''] '' @ strerror @ '': '' @ repr_path filename"
| "str_exn KeyboardInterrupt = []"

section \<open>The codecs\<close>

subsection \<open>UTF-8, strict\<close>

definition is_continuation :: "nat \<Rightarrow> bool" where
  "is_continuation b = (0x80 \<le> b \<and> b < 0xC0)"

datatype utf8_step = Decoded nat nat | Malformed string nat

definition end_of_data :: string where
  "end_of_data = ''unexpected end of data''"

definition bad_start :: string where
  "bad_start = ''invalid start byte''"

definition bad_continuation :: string where
  "bad_continuation = ''invalid continuation byte''"

text \<open>
  One step of the decoder on the octets still to be read: the code point and the number of
  octets it took, or the reason of the failure and the length of the offending run.
  Overlong forms, surrogates and values beyond U+10FFFF are rejected at the second octet.
\<close>

fun utf8_decode_step :: "nat list \<Rightarrow> utf8_step" where
  "utf8_decode_step [] = Malformed end_of_data 0"
| "utf8_decode_step (b0 # rest) =
     (if b0 < 0x80 then Decoded b0 1
      else if b0 < 0xC2 then Malformed bad_start 1
      else if b0 < 0xE0 then
        (case rest of
           [] \<Rightarrow> Malformed end_of_data 1
         | b1 # _ \<Rightarrow>
             if \<not> is_continuation b1 then Malformed bad_continuation 1
             else Decoded ((b0 - 0xC0) * 64 + (b1 - 0x80)) 2)
      else if b0 < 0xF0 then
        (case rest of
           [] \<Rightarrow> Malformed end_of_data 1
         | b1 # rest1 \<Rightarrow>
             if \<not> is_continuation b1 \<or> (if b1 < 0xA0 then b0 = 0xE0 else b0 = 0xED)
             then Malformed bad_continuation 1
             else (case rest1 of
                     [] \<Rightarrow> Malformed end_of_data 2
                   | b2 # _ \<Rightarrow>
                       if \<not> is_continuation b2 then Malformed bad_continuation 2
                       else Decoded ((b0 - 0xE0) * 4096 + (b1 - 0x80) * 64 + (b2 - 0x80)) 3))
      else if b0 < 0xF5 then
        (case rest of
           [] \<Rightarrow> Malformed end_of_data 1
         | b1 # rest1 \<Rightarrow>
             if \<not> is_continuation b1 \<or> (if b1 < 0x90 then b0 = 0xF0 else b0 = 0xF4)
             then Malformed bad_continuation 1
             else (case rest1 of
                     [] \<Rightarrow> Malformed end_of_data 2
                   | b2 # rest2 \<Rightarrow>
                       if \<not> is_continuation b2 then Malformed bad_continuation 2
                       else (case rest2 of
                               [] \<Rightarrow> Malformed end_of_data 3
                             | b3 # _ \<Rightarrow>
                                 if \<not> is_continuation b3 then Malformed bad_continuation 3
                                 else Decoded ((b0 - 0xF0) * 262144 + (b1 - 0x80) * 4096
                                               + (b2 - 0x80) * 64 + (b3 - 0x80)) 4)))
      else Malformed bad_start 1)"

text \<open>
  The decoding loop. \<open>obj\<close> is the whole input (kept for the exception), \<open>pos\<close> the offset
  of \<open>bs\<close> in it. The first malformed sequence raises; nothing is returned then.
\<close>

function utf8_decode_loop :: "byte list \<Rightarrow> nat \<Rightarrow> nat list \<Rightarrow> exn + pystr" where
  "utf8_decode_loop obj pos bs =
     (if bs = [] then Inr []
      else case utf8_decode_step bs of
             Malformed reason n \<Rightarrow> Inl (UnicodeDecodeError ''utf-8'' obj pos (pos + n) reason)
           | Decoded c n \<Rightarrow>
               (case utf8_decode_loop obj (pos + n) (drop n bs) of
                  Inl e \<Rightarrow> Inl e
                | Inr cs \<Rightarrow> Inr (c # cs)))"
  by pat_completeness auto
termination
proof (relation "measure (\<lambda>(obj, pos, bs). length bs)", goal_cases)
  case 1
  show ?case by simp
next
  case (2 obj pos bs c n)
  then have "0 < n" and "bs \<noteq> []"
    by (cases bs; auto split: if_splits list.splits)+
  then show ?case by simp
qed

declare utf8_decode_loop.simps [simp del]

definition decode_utf8 :: "byte list \<Rightarrow> exn + pystr" where
  "decode_utf8 bs = utf8_decode_loop bs 0 (map unat bs)"

definition is_surrogate :: "nat \<Rightarrow> bool" where
  "is_surrogate c = (0xD800 \<le> c \<and> c < 0xE000)"

definition utf8_encode_char :: "nat \<Rightarrow> nat list" where
  "utf8_encode_char c =
     (if c < 0x80 then [c]
      else if c < 0x800 then [0xC0 + c div 64, 0x80 + c mod 64]
      else if c < 0x10000 then [0xE0 + c div 4096, 0x80 + c div 64 mod 64, 0x80 + c mod 64]
      else [0xF0 + c div 262144, 0x80 + c div 4096 mod 64, 0x80 + c div 64 mod 64,
            0x80 + c mod 64])"

text \<open>
  The encoder refuses surrogates; the exception covers the whole run of consecutive
  surrogates that starts at the first one.
\<close>

fun utf8_encode_loop :: "pystr \<Rightarrow> nat \<Rightarrow> pystr \<Rightarrow> exn + nat list" where
  "utf8_encode_loop obj pos [] = Inr []"
| "utf8_encode_loop obj pos (c # cs) =
     (if is_surrogate c
      then Inl (UnicodeEncodeError ''utf-8'' obj pos
                  (pos + 1 + length (takeWhile is_surrogate cs)) ''surrogates not allowed'')
      else case utf8_encode_loop obj (pos + 1) cs of
             Inl e \<Rightarrow> Inl e
           | Inr bs \<Rightarrow> Inr (utf8_encode_char c @ bs))"

definition encode_utf8 :: "pystr \<Rightarrow> exn + byte list" where
  "encode_utf8 s =
     (case utf8_encode_loop s 0 s of Inl e \<Rightarrow> Inl e | Inr bs \<Rightarrow> Inr (map of_nat bs))"

subsection \<open>Windows-1252 (\<^verbatim>\<open>cp1252\<close>), a charmap codec\<close>

text \<open>
  The decoding table of the codec, octets 0x80 to 0x9F; the other octets decode to the
  code point of the same value. U+FFFE marks the five octets that have no character.
\<close>

definition cp1252_high :: "nat list" where
  "cp1252_high =
     [0x20AC, 0xFFFE, 0x201A, 0x0192, 0x201E, 0x2026, 0x2020, 0x2021,
      0x02C6, 0x2030, 0x0160, 0x2039, 0x0152, 0xFFFE, 0x017D, 0xFFFE,
      0xFFFE, 0x2018, 0x2019, 0x201C, 0x201D, 0x2022, 0x2013, 0x2014,
      0x02DC, 0x2122, 0x0161, 0x203A, 0x0153, 0xFFFE, 0x017E, 0x0178]"

definition decoding_table :: "nat list" where
  "decoding_table = [0 ..< 0x80] @ cp1252_high @ [0xA0 ..< 0x100]"

fun index_of :: "'a \<Rightarrow> 'a list \<Rightarrow> nat option" where
  "index_of x [] = None"
| "index_of x (y # ys) = (if x = y then Some 0 else map_option Suc (index_of x ys))"

text \<open>The encoding map built from the table: every entry but U+FFFE, to its index.\<close>

definition encoding_table :: "nat \<Rightarrow> nat option" where
  "encoding_table c = (if c = 0xFFFE then None else index_of c decoding_table)"

definition undefined_map :: string where
  "undefined_map = ''character maps to <undefined>''"

text \<open>
  The charmap encoder: the first character without an octet raises, and the exception
  covers the whole run of such characters that starts there.
\<close>

fun charmap_encode_loop :: "pystr \<Rightarrow> nat \<Rightarrow> pystr \<Rightarrow> exn + nat list" where
  "charmap_encode_loop obj pos [] = Inr []"
| "charmap_encode_loop obj pos (c # cs) =
     (case encoding_table c of
        None \<Rightarrow>
          Inl (UnicodeEncodeError ''charmap'' obj pos
                 (pos + 1 + length (takeWhile (\<lambda>d. encoding_table d = None) cs))
                 undefined_map)
      | Some b \<Rightarrow>
          (case charmap_encode_loop obj (pos + 1) cs of
             Inl e \<Rightarrow> Inl e
           | Inr bs \<Rightarrow> Inr (b # bs)))"

definition encode_cp1252 :: "pystr \<Rightarrow> exn + byte list" where
  "encode_cp1252 s =
     (case charmap_encode_loop s 0 s of Inl e \<Rightarrow> Inl e | Inr bs \<Rightarrow> Inr (map of_nat bs))"

fun charmap_decode_loop :: "byte list \<Rightarrow> nat \<Rightarrow> nat list \<Rightarrow> exn + pystr" where
  "charmap_decode_loop obj pos [] = Inr []"
| "charmap_decode_loop obj pos (b # bs) =
     (if decoding_table ! b = 0xFFFE
      then Inl (UnicodeDecodeError ''charmap'' obj pos (pos + 1) undefined_map)
      else case charmap_decode_loop obj (pos + 1) bs of
             Inl e \<Rightarrow> Inl e
           | Inr cs \<Rightarrow> Inr (decoding_table ! b # cs))"

text \<open>
  Decoding under Windows-1252 is not a step of the script: it is the corruption that the
  script undoes (UTF-8 octets read as Windows-1252).
\<close>

definition decode_cp1252 :: "byte list \<Rightarrow> exn + pystr" where
  "decode_cp1252 bs = charmap_decode_loop bs 0 (map unat bs)"

definition mojibake :: "pystr \<Rightarrow> exn + pystr" where
  "mojibake t = (case encode_utf8 t of Inl e \<Rightarrow> Inl e | Inr bs \<Rightarrow> decode_cp1252 bs)"

section \<open>Text files\<close>

text \<open>
  Both \<^verbatim>\<open>open\<close> calls leave \<^verbatim>\<open>newline\<close> at its default: reading turns \<^verbatim>\<open>\r\n\<close> and
  \<^verbatim>\<open>\r\<close> into \<^verbatim>\<open>\n\<close>, writing turns \<^verbatim>\<open>\n\<close> into the line separator of the platform.
\<close>

datatype platform = Posix | Windows

fun os_linesep :: "platform \<Rightarrow> pystr" where
  "os_linesep Posix = [10]"
| "os_linesep Windows = [13, 10]"

fun universal_newlines :: "pystr \<Rightarrow> pystr" where
  "universal_newlines [] = []"
| "universal_newlines [c] = [if c = 13 then 10 else c]"
| "universal_newlines (c # d # cs) =
     (if c = 13 then (if d = 10 then 10 # universal_newlines cs
                      else 10 # universal_newlines (d # cs))
      else c # universal_newlines (d # cs))"

definition write_newlines :: "pystr \<Rightarrow> pystr \<Rightarrow> pystr" where
  "write_newlines linesep s = concat (map (\<lambda>c. if c = 10 then linesep else [c]) s)"

text \<open>
  What the operating system answers: the platform, and the faults it raises. A fault is an
  errno with its message; \<open>write_fails\<close> also tells how many octets reached the file before
  the error.
\<close>

record os =
  platform :: platform
  read_denied :: "(nat \<times> string) option"
  write_denied :: "(nat \<times> string) option"
  write_fails :: "(nat \<times> string \<times> nat) option"

datatype event = OpenRead string | OpenWrite string | WriteText string pystr | Print string

text \<open>The mutable world: the files by path, and what the run has done so far, in order.\<close>

record world =
  files :: "string \<Rightarrow> byte list option"
  trace :: "event list"

definition emit :: "event \<Rightarrow> world \<Rightarrow> world" where
  "emit ev w = w\<lparr>trace := trace w @ [ev]\<rparr>"

text \<open>
  \<^verbatim>\<open>print(s)\<close>. Standard output either works or is broken for the whole run: \<open>out\<close> is
  \<open>None\<close>, or the errno and message with which every write to it fails. A print that fails
  raises \<^verbatim>\<open>OSError\<close> and shows nothing.
\<close>

type_synonym stdout_fault = "(nat \<times> string) option"

definition print :: "stdout_fault \<Rightarrow> string \<Rightarrow> world \<Rightarrow> (exn + unit) \<times> world" where
  "print out s w =
     (case out of
        Some (errno, strerror) \<Rightarrow> (Inl (OSError errno strerror None), w)
      | None \<Rightarrow> (Inr (), emit (Print s) w))"

text \<open>\<^verbatim>\<open>open(path, 'r', encoding='utf-8')\<close>: the octets of the file, or an \<^verbatim>\<open>OSError\<close>.\<close>

definition open_read :: "os \<Rightarrow> string \<Rightarrow> world \<Rightarrow> (exn + byte list) \<times> world" where
  "open_read sys path w =
     (let w' = emit (OpenRead path) w in
      case files w path of
        None \<Rightarrow> (Inl (OSError 2 ''No such file or directory'' (Some path)), w')
      | Some raw \<Rightarrow>
          (case read_denied sys of
             Some (errno, strerror) \<Rightarrow> (Inl (OSError errno strerror (Some path)), w')
           | None \<Rightarrow> (Inr raw, w')))"

text \<open>\<^verbatim>\<open>f.read()\<close>: the whole file decoded at once, then newline translation.\<close>

definition read_text :: "byte list \<Rightarrow> exn + pystr" where
  "read_text raw = (case decode_utf8 raw of Inl e \<Rightarrow> Inl e | Inr s \<Rightarrow> Inr (universal_newlines s))"

text \<open>\<^verbatim>\<open>open(path, 'w', encoding='utf-8')\<close>: the file is created or truncated when it opens.\<close>

definition open_write :: "os \<Rightarrow> string \<Rightarrow> world \<Rightarrow> (exn + unit) \<times> world" where
  "open_write sys path w =
     (let w' = emit (OpenWrite path) w in
      case write_denied sys of
        Some (errno, strerror) \<Rightarrow> (Inl (OSError errno strerror (Some path)), w')
      | None \<Rightarrow> (Inr (), w'\<lparr>files := (files w')(path \<mapsto> [])\<rparr>))"

text \<open>\<^verbatim>\<open>f.write(text)\<close> and the close at the end of the \<^verbatim>\<open>with\<close> block.\<close>

definition write_text :: "os \<Rightarrow> string \<Rightarrow> pystr \<Rightarrow> world \<Rightarrow> (exn + unit) \<times> world" where
  "write_text sys path text w =
     (let w' = emit (WriteText path text) w in
      case encode_utf8 (write_newlines (os_linesep (platform sys)) text) of
        Inl e \<Rightarrow> (Inl e, w')
      | Inr bs \<Rightarrow>
          (case write_fails sys of
             Some (errno, strerror, accepted) \<Rightarrow>
               (Inl (OSError errno strerror None),
                w'\<lparr>files := (files w')(path \<mapsto> take accepted bs)\<rparr>)
           | None \<Rightarrow> (Inr (), w'\<lparr>files := (files w')(path \<mapsto> bs)\<rparr>)))"

section \<open>The script\<close>

definition file_path :: string where
  "file_path = ''c:'' @ backslash # ''Users'' @ backslash # ''Owner'' @ backslash # ''Desktop''
     @ backslash # ''Botai'' @ backslash # ''src'' @ backslash # ''components''
     @ backslash # ''UI'' @ backslash # ''ControlPanel.jsx''"

text \<open>
  The stage at which a run stopped. The script itself keeps no such value: it is recorded
  beside the exception so that properties can speak of it. \<open>PrintStage\<close> is for an exception
  that one of the two prints of the \<^verbatim>\<open>try\<close> body raises (lines 16 and 21).
\<close>

datatype stage = ReadStage | EncodeStage | DecodeStage | PrintStage | WriteStage

text \<open>Line 14: \<^verbatim>\<open>content.encode('cp1252').decode('utf-8')\<close>.\<close>

definition fixed_content :: "pystr \<Rightarrow> (stage \<times> exn) + pystr" where
  "fixed_content content =
     (case encode_cp1252 content of
        Inl e \<Rightarrow> Inl (EncodeStage, e)
      | Inr bs \<Rightarrow> (case decode_utf8 bs of Inl e \<Rightarrow> Inl (DecodeStage, e) | Inr t \<Rightarrow> Inr t))"

definition decoded_msg :: string where
  "decoded_msg = ''Successfully decoded content.''"

definition fixed_msg :: string where
  "fixed_msg = ''Fixed encoding for '' @ file_path"

text \<open>The body of the \<^verbatim>\<open>try\<close> statement, lines 7 to 21.\<close>

definition try_body :: "stdout_fault \<Rightarrow> os \<Rightarrow> world \<Rightarrow> ((stage \<times> exn) + unit) \<times> world" where
  "try_body out sys w0 =
     (case open_read sys file_path w0 of
        (Inl e, w1) \<Rightarrow> (Inl (ReadStage, e), w1)
      | (Inr raw, w1) \<Rightarrow>
          (case read_text raw of
             Inl e \<Rightarrow> (Inl (ReadStage, e), w1)
           | Inr content \<Rightarrow>
               (case fixed_content content of
                  Inl se \<Rightarrow> (Inl se, w1)
                | Inr fixed \<Rightarrow>
                    (case print out decoded_msg w1 of
                       (Inl e, w2) \<Rightarrow> (Inl (PrintStage, e), w2)
                     | (Inr _, w2) \<Rightarrow>
                         (case open_write sys file_path w2 of
                            (Inl e, w3) \<Rightarrow> (Inl (WriteStage, e), w3)
                          | (Inr _, w3) \<Rightarrow>
                              (case write_text sys file_path fixed w3 of
                                 (Inl e, w4) \<Rightarrow> (Inl (WriteStage, e), w4)
                               | (Inr _, w4) \<Rightarrow>
                                   (case print out fixed_msg w4 of
                                      (Inl e, w5) \<Rightarrow> (Inl (PrintStage, e), w5)
                                    | (Inr _, w5) \<Rightarrow> (Inr (), w5))))))))"

definition encode_error_msg :: string where
  "encode_error_msg = ''Error during encoding (some characters might not map to cp1252): ''"

definition decode_error_msg :: string where
  "decode_error_msg = ''Error during decoding (bytes might not be valid utf-8): ''"

definition other_error_msg :: string where
  "other_error_msg = ''An error occurred: ''"

text \<open>
  The three \<^verbatim>\<open>except\<close> clauses, in the order of the script: the message of the first clause
  that matches, or nothing when none does and the exception leaves the script. The last
  clause catches what derives from \<^verbatim>\<open>Exception\<close>, not a \<^verbatim>\<open>KeyboardInterrupt\<close>.
\<close>

fun report :: "exn \<Rightarrow> string option" where
  "report (UnicodeEncodeError enc obj s e r) =
     Some (encode_error_msg @ str_exn (UnicodeEncodeError enc obj s e r))"
| "report (UnicodeDecodeError enc obj s e r) =
     Some (decode_error_msg @ str_exn (UnicodeDecodeError enc obj s e r))"
| "report ex = (if is_Exception ex then Some (other_error_msg @ str_exn ex) else None)"

text \<open>
  A run: how the \<^verbatim>\<open>try\<close> body ended, the exception that left the script (if any), and the
  world afterwards. An exception leaves the script when no clause matches it, or when the
  print of the clause that caught it raises in its turn: nothing encloses the clauses.
\<close>

record run_result =
  outcome :: "(stage \<times> exn) option"
  uncaught :: "exn option"
  after :: world

definition except_clauses :: "stdout_fault \<Rightarrow> stage \<Rightarrow> exn \<Rightarrow> world \<Rightarrow> run_result" where
  "except_clauses out st e w =
     (case report e of
        None \<Rightarrow> \<lparr>outcome = Some (st, e), uncaught = Some e, after = w\<rparr>
      | Some msg \<Rightarrow>
          (case print out msg w of
             (Inl e', w') \<Rightarrow> \<lparr>outcome = Some (st, e), uncaught = Some e', after = w'\<rparr>
           | (Inr _, w') \<Rightarrow> \<lparr>outcome = Some (st, e), uncaught = None, after = w'\<rparr>))"

text \<open>The whole script, lines 6 to 28, under a given state of standard output.\<close>

definition script :: "stdout_fault \<Rightarrow> os \<Rightarrow> world \<Rightarrow> run_result" where
  "script out sys w0 =
     (case try_body out sys w0 of
        (Inr _, w) \<Rightarrow> \<lparr>outcome = None, uncaught = None, after = w\<rparr>
      | (Inl (st, e), w) \<Rightarrow> except_clauses out st e w)"

text \<open>A run of the script on a standard output that works.\<close>

definition run :: "os \<Rightarrow> world \<Rightarrow> run_result" where
  "run sys w0 = script None sys w0"

text \<open>What a run did, and what it printed, beyond what had happened before it.\<close>

definition events :: "os \<Rightarrow> world \<Rightarrow> event list" where
  "events sys w = drop (length (trace w)) (trace (after (run sys w)))"

definition printed :: "os \<Rightarrow> world \<Rightarrow> string list" where
  "printed sys w = concat (map (\<lambda>ev. case ev of Print s \<Rightarrow> [s] | _ \<Rightarrow> []) (events sys w))"

fun is_EncodeError :: "exn \<Rightarrow> bool" where
  "is_EncodeError (UnicodeEncodeError enc obj s e r) = True"
| "is_EncodeError _ = False"

fun is_DecodeError :: "exn \<Rightarrow> bool" where
  "is_DecodeError (UnicodeDecodeError enc obj s e r) = True"
| "is_DecodeError _ = False"

text \<open>A world that holds one file at \<open>file_path\<close> and in which nothing has happened yet.\<close>

definition world_with :: "byte list \<Rightarrow> world" where
  "world_with raw = \<lparr>files = Map.empty(file_path \<mapsto> raw), trace = []\<rparr>"

definition no_faults :: "platform \<Rightarrow> os" where
  "no_faults p = \<lparr>platform = p, read_denied = None, write_denied = None, write_fails = None\<rparr>"


text \<open>An operating system on which the device fails as soon as the script writes.\<close>

definition full_disk :: "platform \<Rightarrow> os" where
  "full_disk p = (no_faults p)\<lparr>write_fails := Some (28, ''No space left on device'', 0)\<rparr>"

text \<open>\<open>a\<close> happens before the first \<open>b\<close> in a list of events.\<close>

definition happens_before :: "event \<Rightarrow> event \<Rightarrow> event list \<Rightarrow> bool" where
  "happens_before a b evs = (a \<in> set (takeWhile (\<lambda>ev. ev \<noteq> b) evs))"

text \<open>A printed line that starts with the text of the decoding clause.\<close>

definition reported_as_decode :: "string \<Rightarrow> bool" where
  "reported_as_decode line = (take (length decode_error_msg) line = decode_error_msg)"

section \<open>Properties of the codecs\<close>

subsection \<open>UTF-8 decoding undoes UTF-8 encoding\<close>

lemma utf8_decode_step_two: "2 \<le> a \<Longrightarrow> a < 32 \<Longrightarrow> d < 64 \<Longrightarrow>
  utf8_decode_step ((0xC0 + a) # (0x80 + d) # rest) = Decoded (a * 64 + d) 2"
  by (simp add: is_continuation_def)

lemma utf8_decode_step_three: "a < 16 \<Longrightarrow> b < 64 \<Longrightarrow> d < 64 \<Longrightarrow> 0 < a \<or> 32 \<le> b \<Longrightarrow> a \<noteq> 13 \<or> b < 32 \<Longrightarrow>
  utf8_decode_step ((0xE0 + a) # (0x80 + b) # (0x80 + d) # rest) = Decoded (a * 4096 + b * 64 + d) 3"
  by (auto simp add: is_continuation_def)

lemma utf8_decode_step_four: "a < 5 \<Longrightarrow> b < 64 \<Longrightarrow> d < 64 \<Longrightarrow> e < 64 \<Longrightarrow> 0 < a \<or> 16 \<le> b \<Longrightarrow> a \<noteq> 4 \<or> b < 16 \<Longrightarrow>
  utf8_decode_step ((0xF0 + a) # (0x80 + b) # (0x80 + d) # (0x80 + e) # rest) = Decoded (a * 262144 + b * 4096 + d * 64 + e) 4"
  by (auto simp add: is_continuation_def)

lemma three_digit_split: "(c::nat) = c div 4096 * 4096 + c div 64 mod 64 * 64 + c mod 64"
proof -
  have 1: "c = c div 64 * 64 + c mod 64" by simp
  have 2: "c div 64 = c div 64 div 64 * 64 + c div 64 mod 64" by simp
  have 3: "c div 64 div 64 = c div 4096" by (simp add: div_mult2_eq [symmetric])
  from 2 3 have "c div 64 = c div 4096 * 64 + c div 64 mod 64" by simp
  then have "c div 64 * 64 = c div 4096 * 4096 + c div 64 mod 64 * 64" by simp
  with 1 show ?thesis by linarith
qed
lemma four_digit_split: "(c::nat) = c div 262144 * 262144 + c div 4096 mod 64 * 4096 + c div 64 mod 64 * 64 + c mod 64"
proof -
  have 1: "c = c div 4096 * 4096 + c div 64 mod 64 * 64 + c mod 64" by (rule three_digit_split)
  have 2: "c div 4096 = c div 4096 div 64 * 64 + c div 4096 mod 64" by simp
  have 3: "c div 4096 div 64 = c div 262144" by (simp add: div_mult2_eq [symmetric])
  from 2 3 have "c div 4096 = c div 262144 * 64 + c div 4096 mod 64" by simp
  then have "c div 4096 * 4096 = c div 262144 * 262144 + c div 4096 mod 64 * 4096" by simp
  with 1 show ?thesis by linarith
qed

lemma utf8_step_encode:
  assumes "c \<le> 0x10FFFF" and "\<not> is_surrogate c"
  shows "utf8_decode_step (utf8_encode_char c @ rest) = Decoded c (length (utf8_encode_char c))"
proof -
  consider (one) "c < 0x80" | (two) "0x80 \<le> c" "c < 0x800"
    | (three) "0x800 \<le> c" "c < 0x10000" | (four) "0x10000 \<le> c"
    by linarith
  then show ?thesis
  proof cases
    case one
    then show ?thesis by (simp add: utf8_encode_char_def)
  next
    case two
    define a d where "a = c div 64" and "d = c mod 64"
    have c: "c = a * 64 + d" by (simp add: a_def d_def)
    have d: "d < 64" by (simp add: d_def)
    have a: "2 \<le> a" "a < 32" using two c d by linarith+
    have "utf8_encode_char c = [0xC0 + a, 0x80 + d]"
      using two by (simp add: utf8_encode_char_def a_def d_def)
    then show ?thesis using utf8_decode_step_two [OF a d, of rest] c by simp
  next
    case three
    define a b d where "a = c div 4096" and "b = c div 64 mod 64" and "d = c mod 64"
    have c: "c = a * 4096 + b * 64 + d" unfolding a_def b_def d_def by (rule three_digit_split)
    have bd: "b < 64" "d < 64" by (simp_all add: b_def d_def)
    have a: "a < 16" using three c bd by linarith
    have x: "0 < a \<or> 32 \<le> b" using three c bd by linarith
    have y: "a \<noteq> 13 \<or> b < 32" using assms(2) three c bd unfolding is_surrogate_def by linarith
    have "utf8_encode_char c = [0xE0 + a, 0x80 + b, 0x80 + d]"
      using three by (simp add: utf8_encode_char_def a_def b_def d_def)
    then show ?thesis using utf8_decode_step_three [OF a bd x y, of rest] c by simp
  next
    case four
    define a b d e where "a = c div 262144" and "b = c div 4096 mod 64"
      and "d = c div 64 mod 64" and "e = c mod 64"
    have c: "c = a * 262144 + b * 4096 + d * 64 + e" unfolding a_def b_def d_def e_def by (rule four_digit_split)
    have bd: "b < 64" "d < 64" "e < 64" by (simp_all add: b_def d_def e_def)
    have a: "a < 5" using four assms(1) c bd by linarith
    have x: "0 < a \<or> 16 \<le> b" using four c bd by linarith
    have y: "a \<noteq> 4 \<or> b < 16" using assms(1) four c bd by linarith
    have "utf8_encode_char c = [0xF0 + a, 0x80 + b, 0x80 + d, 0x80 + e]"
      using four by (simp add: utf8_encode_char_def a_def b_def d_def e_def)
    then show ?thesis using utf8_decode_step_four [OF a bd x y, of rest] c by simp
  qed
qed

lemma utf8_encode_char_octets:
  assumes "c \<le> 0x10FFFF" and "b \<in> set (utf8_encode_char c)"
  shows "b < 256"
proof -
  have m: "c mod 64 < 64" "c div 64 mod 64 < 64" "c div 4096 mod 64 < 64" by simp_all
  have "c < 0x800 \<Longrightarrow> c div 64 < 32" by linarith
  moreover have "c < 0x10000 \<Longrightarrow> c div 4096 < 16" by linarith
  moreover have "c div 262144 < 5" using assms(1) by linarith
  ultimately show ?thesis using assms(2) m
    by (auto simp add: utf8_encode_char_def split: if_splits)
qed

lemma utf8_encode_char_nonempty: "utf8_encode_char c \<noteq> []"
  by (simp add: utf8_encode_char_def)

lemma utf8_loop_roundtrip:
  "utf8_encode_loop obj p t = Inr bs \<Longrightarrow> is_pystr t \<Longrightarrow> utf8_decode_loop obj' pos bs = Inr t"
proof (induction t arbitrary: p pos bs)
  case Nil
  then show ?case by (simp add: utf8_decode_loop.simps)
next
  case (Cons c cs)
  from Cons.prems(1) obtain bs' where ns: "\<not> is_surrogate c"
    and rest: "utf8_encode_loop obj (p + 1) cs = Inr bs'" and bs: "bs = utf8_encode_char c @ bs'"
    by (auto split: if_splits sum.splits)
  from Cons.prems(2) have c: "c \<le> 0x10FFFF" and cs: "is_pystr cs"
    by (simp_all add: is_pystr_def)
  have step: "utf8_decode_step bs = Decoded c (length (utf8_encode_char c))"
    unfolding bs by (rule utf8_step_encode [OF c ns])
  have ne: "bs \<noteq> []" using utf8_encode_char_nonempty [of c] by (simp add: bs)
  have ih: "utf8_decode_loop obj' (pos + length (utf8_encode_char c)) bs' = Inr cs"
    by (rule Cons.IH [OF rest cs])
  have "utf8_decode_loop obj' pos bs =
      (case utf8_decode_loop obj' (pos + length (utf8_encode_char c))
              (drop (length (utf8_encode_char c)) bs) of
         Inl e \<Rightarrow> Inl e | Inr cs \<Rightarrow> Inr (c # cs))"
    by (subst utf8_decode_loop.simps) (simp add: step ne)
  moreover have "drop (length (utf8_encode_char c)) bs = bs'"
    by (simp add: bs)
  ultimately show ?case using ih by simp
qed

lemma utf8_encode_loop_octets:
  "utf8_encode_loop obj p t = Inr bs \<Longrightarrow> is_pystr t \<Longrightarrow> \<forall>b\<in>set bs. b < 256"
proof (induction t arbitrary: p bs)
  case Nil
  then show ?case by simp
next
  case (Cons c cs)
  from Cons.prems(1) obtain bs' where
    rest: "utf8_encode_loop obj (p + 1) cs = Inr bs'" and bs: "bs = utf8_encode_char c @ bs'"
    by (auto split: if_splits sum.splits)
  from Cons.prems(2) have c: "c \<le> 0x10FFFF" and cs: "is_pystr cs"
    by (simp_all add: is_pystr_def)
  show ?case using Cons.IH [OF rest cs] utf8_encode_char_octets [OF c] by (auto simp add: bs)
qed

lemma unat_of_nat_octets:
  "\<forall>b\<in>set bs. b < 256 \<Longrightarrow> map unat (map of_nat bs :: byte list) = bs"
  by (induction bs) (simp_all add: unat_of_nat)

lemma decode_encode_utf8:
  assumes "encode_utf8 t = Inr bs" and "is_pystr t"
  shows "decode_utf8 bs = Inr t"
proof -
  from assms(1) obtain ns where ns: "utf8_encode_loop t 0 t = Inr ns" and bs: "bs = map of_nat ns"
    by (auto simp add: encode_utf8_def split: sum.splits)
  have "map unat bs = ns"
    unfolding bs by (rule unat_of_nat_octets [OF utf8_encode_loop_octets [OF ns assms(2)]])
  then show ?thesis
    using utf8_loop_roundtrip [OF ns assms(2)] by (simp add: decode_utf8_def)
qed

subsection \<open>Windows-1252 encoding undoes Windows-1252 decoding\<close>

lemma index_of_append:
  "index_of x (xs @ ys) =
     (case index_of x xs of
        Some i \<Rightarrow> Some i
      | None \<Rightarrow> (case index_of x ys of None \<Rightarrow> None | Some j \<Rightarrow> Some (length xs + j)))"
  by (induction xs) (auto split: option.splits)

lemma index_of_upt: "index_of c [a ..< a + n] = (if a \<le> c \<and> c < a + n then Some (c - a) else None)"
proof (induction n arbitrary: a)
  case 0
  then show ?case by simp
next
  case (Suc n)
  have "[a ..< a + Suc n] = a # [Suc a ..< Suc a + n]" by (simp add: upt_rec)
  then show ?case using Suc [of "Suc a"] by (auto simp add: Suc_diff_le)
qed

lemma encoding_table_low: "c < 0x80 \<Longrightarrow> encoding_table c = Some c"
  using index_of_upt [of c 0 128]
  by (simp add: encoding_table_def decoding_table_def index_of_append)

lemma not_in_high: "c < 0x100 \<Longrightarrow> index_of c cp1252_high = None"
  by (simp add: cp1252_high_def)

lemma encoding_table_latin: "0xA0 \<le> c \<Longrightarrow> c < 0x100 \<Longrightarrow> encoding_table c = Some c"
  using index_of_upt [of c 0 128] index_of_upt [of c 160 96] not_in_high [of c]
  by (simp add: encoding_table_def decoding_table_def index_of_append cp1252_high_def)

lemma encoding_table_high:
  "0x100 \<le> c \<Longrightarrow> encoding_table c =
     (if c = 0xFFFE then None
      else case index_of c cp1252_high of None \<Rightarrow> None | Some i \<Rightarrow> Some (128 + i))"
  using index_of_upt [of c 0 128] index_of_upt [of c 160 96]
  by (simp add: encoding_table_def decoding_table_def index_of_append cp1252_high_def split: option.splits)

lemma length_cp1252_high: "length cp1252_high = 32"
  by (simp add: cp1252_high_def)

lemma decoding_table_low:
  assumes "b < 0x80"
  shows "decoding_table ! b = b"
proof -
  have "decoding_table ! b = [0 ..< 0x80] ! b"
    unfolding decoding_table_def using assms by (simp add: nth_append del: upt_rec_numeral)
  also have "\<dots> = 0 + b"
    using assms by (intro nth_upt) simp
  finally show ?thesis by simp
qed

lemma decoding_table_high:
  assumes "0x80 \<le> b" and "b < 0xA0"
  shows "decoding_table ! b = cp1252_high ! (b - 0x80)"
proof -
  have "\<not> b < length [0 ..< (0x80::nat)]" using assms(1) by (simp del: upt_rec_numeral)
  then have "decoding_table ! b = (cp1252_high @ [0xA0 ..< 0x100]) ! (b - length [0 ..< (0x80::nat)])"
    unfolding decoding_table_def by (simp only: nth_append if_False)
  also have "b - length [0 ..< (0x80::nat)] = b - 0x80" by (simp del: upt_rec_numeral)
  also have "(cp1252_high @ [0xA0 ..< 0x100]) ! (b - 0x80) = cp1252_high ! (b - 0x80)"
  proof -
    have "b - 0x80 < length cp1252_high" using assms by (simp add: length_cp1252_high)
    then show ?thesis by (simp only: nth_append if_True)
  qed
  finally show ?thesis .
qed

lemma decoding_table_latin:
  assumes "0xA0 \<le> b" and "b < 0x100"
  shows "decoding_table ! b = b"
proof -
  have len: "length ([0 ..< (0x80::nat)] @ cp1252_high) = 0xA0"
    by (simp add: length_cp1252_high del: upt_rec_numeral)
  have nlt: "\<not> b < length ([0 ..< (0x80::nat)] @ cp1252_high)"
    using assms(1) by (simp only: len)
  have "decoding_table ! b = (([0 ..< 0x80] @ cp1252_high) @ [0xA0 ..< 0x100]) ! b"
    unfolding decoding_table_def by (simp only: append_assoc)
  also have "\<dots> = [0xA0 ..< 0x100] ! (b - length ([0 ..< (0x80::nat)] @ cp1252_high))"
    using nlt by (simp only: nth_append if_False)
  also have "\<dots> = [0xA0 ..< 0x100] ! (b - 0xA0)"
    by (simp only: len)
  also have "\<dots> = 0xA0 + (b - 0xA0)"
    using assms by (intro nth_upt) simp
  finally show ?thesis using assms(1) by simp
qed

lemma high_roundtrip:
  assumes "0x80 \<le> b" and "b < 0xA0" and "cp1252_high ! (b - 0x80) \<noteq> 0xFFFE"
  shows "0x100 \<le> cp1252_high ! (b - 0x80)
    \<and> index_of (cp1252_high ! (b - 0x80)) cp1252_high = Some (b - 0x80)"
proof -
  define P where "P b \<longleftrightarrow> cp1252_high ! (b - 0x80) = 0xFFFE
      \<or> 0x100 \<le> cp1252_high ! (b - 0x80)
        \<and> index_of (cp1252_high ! (b - 0x80)) cp1252_high = Some (b - 0x80)" for b
  have "list_all P [0x80 ..< 0xA0]"
    by (simp add: P_def cp1252_high_def)
  moreover have "b \<in> set [0x80 ..< 0xA0]" using assms(1,2) by (simp del: upt_rec_numeral)
  ultimately have "P b" unfolding list_all_iff by blast
  with assms(3) show ?thesis by (simp add: P_def)
qed

lemma charmap_char_roundtrip:
  assumes "b < 0x100" and "decoding_table ! b \<noteq> 0xFFFE"
  shows "encoding_table (decoding_table ! b) = Some b"
proof -
  consider (low) "b < 0x80" | (high) "0x80 \<le> b" "b < 0xA0" | (latin) "0xA0 \<le> b"
    by linarith
  then show ?thesis
  proof cases
    case low
    then show ?thesis by (simp add: decoding_table_low encoding_table_low)
  next
    case high
    then have t: "decoding_table ! b = cp1252_high ! (b - 0x80)" by (rule decoding_table_high)
    from assms(2) have "cp1252_high ! (b - 0x80) \<noteq> 0xFFFE" by (simp add: t)
    from high_roundtrip [OF high this] show ?thesis
      using high assms(2) by (simp add: t encoding_table_high)
  next
    case latin
    then show ?thesis using assms(1) by (simp add: decoding_table_latin encoding_table_latin)
  qed
qed

lemma charmap_loop_roundtrip:
  "charmap_decode_loop obj pos bs = Inr cs \<Longrightarrow> \<forall>b\<in>set bs. b < 0x100 \<Longrightarrow>
   charmap_encode_loop obj' pos' cs = Inr bs"
proof (induction bs arbitrary: pos pos' cs)
  case Nil
  then show ?case by simp
next
  case (Cons b bs)
  from Cons.prems(1) obtain cs' where d: "decoding_table ! b \<noteq> 0xFFFE"
    and rest: "charmap_decode_loop obj (pos + 1) bs = Inr cs'" and cs: "cs = decoding_table ! b # cs'"
    by (auto split: if_splits sum.splits)
  from Cons.prems(2) have b: "b < 0x100" and bs: "\<forall>b\<in>set bs. b < 0x100" by simp_all
  show ?case
    using Cons.IH [OF rest bs, of "pos' + 1"] charmap_char_roundtrip [OF b d] by (simp add: cs)
qed

lemma encode_decode_cp1252:
  assumes "decode_cp1252 bs = Inr cs"
  shows "encode_cp1252 cs = Inr bs"
proof -
  have "\<forall>b\<in>set (map unat bs). b < 0x100"
  proof
    fix b assume "b \<in> set (map unat bs)"
    then obtain w :: byte where "b = unat w" by auto
    moreover have "unat w < 2 ^ LENGTH(8)" by (rule unsigned_less)
    ultimately show "b < 0x100" by simp
  qed
  from charmap_loop_roundtrip [OF assms [unfolded decode_cp1252_def] this, of cs 0]
  show ?thesis by (simp add: encode_cp1252_def comp_def)
qed

lemma fixed_content_mojibake:
  assumes "mojibake t = Inr c" and "is_pystr t"
  shows "fixed_content c = Inr t"
proof -
  from assms(1) obtain bs where e: "encode_utf8 t = Inr bs" and d: "decode_cp1252 bs = Inr c"
    by (auto simp add: mojibake_def split: sum.splits)
  show ?thesis
    using encode_decode_cp1252 [OF d] decode_encode_utf8 [OF e assms(2)]
    by (simp add: fixed_content_def)
qed

section \<open>Which exceptions the steps raise, and which clause reports them\<close>

lemma decode_loop_error:
  "utf8_decode_loop obj pos bs = Inl e \<Longrightarrow> is_DecodeError e"
proof (induction obj pos bs rule: utf8_decode_loop.induct)
  case (1 obj pos bs)
  from "1.prems" show ?case
    by (subst (asm) utf8_decode_loop.simps)
       (auto split: if_splits utf8_step.splits sum.splits dest: "1.IH")
qed

lemma decode_utf8_error: "decode_utf8 bs = Inl e \<Longrightarrow> is_DecodeError e"
  unfolding decode_utf8_def by (rule decode_loop_error)

lemma charmap_encode_loop_error:
  "charmap_encode_loop obj pos s = Inl e \<Longrightarrow> is_EncodeError e"
  by (induction s arbitrary: pos) (auto split: option.splits sum.splits)

lemma encode_cp1252_error: "encode_cp1252 s = Inl e \<Longrightarrow> is_EncodeError e"
  by (auto simp add: encode_cp1252_def split: sum.splits dest: charmap_encode_loop_error)

lemma utf8_encode_loop_error:
  "utf8_encode_loop obj pos s = Inl e \<Longrightarrow> is_EncodeError e"
  by (induction s arbitrary: pos) (auto split: if_splits sum.splits)

lemma encode_utf8_error: "encode_utf8 s = Inl e \<Longrightarrow> is_EncodeError e"
  by (auto simp add: encode_utf8_def split: sum.splits dest: utf8_encode_loop_error)

lemma report_EncodeError: "is_EncodeError e \<Longrightarrow> report e = Some (encode_error_msg @ str_exn e)"
  by (cases e) simp_all

lemma report_DecodeError: "is_DecodeError e \<Longrightarrow> report e = Some (decode_error_msg @ str_exn e)"
  by (cases e) simp_all

lemma report_OSError:
  "report (OSError n m f) = Some (other_error_msg @ str_exn (OSError n m f))"
  by simp

lemma read_text_error: "read_text raw = Inl e \<Longrightarrow> is_DecodeError e"
  by (auto simp add: read_text_def split: sum.splits dest: decode_utf8_error)

lemma fixed_content_error:
  "fixed_content content = Inl (st, e) \<Longrightarrow>
     st = EncodeStage \<and> is_EncodeError e \<or> st = DecodeStage \<and> is_DecodeError e"
  by (auto simp add: fixed_content_def split: sum.splits
      dest: decode_utf8_error encode_cp1252_error)

section \<open>The paths of a run\<close>

text \<open>
  The script has eight paths. Each lemma gives the result of the run on one of them;
  \<open>run_cases\<close> says that there is no other.
\<close>

lemma run_not_found:
  assumes "files w file_path = None"
  shows "run sys w = except_clauses None ReadStage (OSError 2 ''No such file or directory'' (Some file_path))
           \<lparr>files = files w, trace = trace w @ [OpenRead file_path]\<rparr>"
  using assms by (cases w) (simp add: run_def script_def try_body_def open_read_def Let_def emit_def)

lemma run_read_denied:
  assumes "files w file_path = Some raw" and "read_denied sys = Some (errno, strerror)"
  shows "run sys w = except_clauses None ReadStage (OSError errno strerror (Some file_path))
           \<lparr>files = files w, trace = trace w @ [OpenRead file_path]\<rparr>"
  using assms by (cases w) (simp add: run_def script_def try_body_def open_read_def Let_def emit_def)

lemma run_read_error:
  assumes "files w file_path = Some raw" and "read_denied sys = None" and "read_text raw = Inl e"
  shows "run sys w = except_clauses None ReadStage e \<lparr>files = files w, trace = trace w @ [OpenRead file_path]\<rparr>"
  using assms by (cases w) (simp add: run_def script_def try_body_def open_read_def Let_def emit_def)

lemma run_transcode_error:
  assumes "files w file_path = Some raw" and "read_denied sys = None"
    and "read_text raw = Inr content" and "fixed_content content = Inl (st, e)"
  shows "run sys w = except_clauses None st e \<lparr>files = files w, trace = trace w @ [OpenRead file_path]\<rparr>"
  using assms by (cases w) (simp add: run_def script_def try_body_def open_read_def Let_def emit_def)

lemma run_write_denied:
  assumes "files w file_path = Some raw" and "read_denied sys = None"
    and "read_text raw = Inr content" and "fixed_content content = Inr fixed"
    and "write_denied sys = Some (errno, strerror)"
  shows "run sys w = except_clauses None WriteStage (OSError errno strerror (Some file_path))
           \<lparr>files = files w, trace = trace w @ [OpenRead file_path, Print decoded_msg, OpenWrite file_path]\<rparr>"
  using assms
  by (cases w) (simp add: run_def script_def try_body_def open_read_def open_write_def Let_def emit_def print_def)

lemma run_write_encode_error:
  assumes "files w file_path = Some raw" and "read_denied sys = None"
    and "read_text raw = Inr content" and "fixed_content content = Inr fixed"
    and "write_denied sys = None"
    and "encode_utf8 (write_newlines (os_linesep (platform sys)) fixed) = Inl e"
  shows "run sys w = except_clauses None WriteStage e
           \<lparr>files = (files w)(file_path \<mapsto> []), trace = trace w @ [OpenRead file_path, Print decoded_msg, OpenWrite file_path,
                                   WriteText file_path fixed]\<rparr>"
  using assms
  by (cases w) (simp add: run_def script_def try_body_def open_read_def open_write_def write_text_def Let_def
      emit_def print_def)

lemma run_write_fails:
  assumes "files w file_path = Some raw" and "read_denied sys = None"
    and "read_text raw = Inr content" and "fixed_content content = Inr fixed"
    and "write_denied sys = None"
    and "encode_utf8 (write_newlines (os_linesep (platform sys)) fixed) = Inr out"
    and "write_fails sys = Some (errno, strerror, accepted)"
  shows "run sys w = except_clauses None WriteStage (OSError errno strerror None)
           (\<lparr>files = (files w)(file_path \<mapsto> take accepted out), trace = trace w @ [OpenRead file_path, Print decoded_msg, OpenWrite file_path,
                                   WriteText file_path fixed]\<rparr>)"
  using assms
  by (cases w) (simp add: run_def script_def try_body_def open_read_def open_write_def write_text_def Let_def
      emit_def print_def)

lemma run_success:
  assumes "files w file_path = Some raw" and "read_denied sys = None"
    and "read_text raw = Inr content" and "fixed_content content = Inr fixed"
    and "write_denied sys = None"
    and "encode_utf8 (write_newlines (os_linesep (platform sys)) fixed) = Inr out"
    and "write_fails sys = None"
  shows "run sys w = \<lparr>outcome = None, uncaught = None,
           after = \<lparr>files = (files w)(file_path \<mapsto> out), trace = trace w @ [OpenRead file_path, Print decoded_msg,
                        OpenWrite file_path, WriteText file_path fixed, Print fixed_msg]\<rparr>\<rparr>"
  using assms
  by (cases w) (simp add: run_def script_def try_body_def open_read_def open_write_def write_text_def Let_def
      emit_def print_def)


lemma run_cases [case_names not_found read_denied read_error transcode_error write_denied
    write_encode_error write_fails success]:
  obtains "files w file_path = None"
  | raw errno strerror where "files w file_path = Some raw"
      and "read_denied sys = Some (errno, strerror)"
  | raw e where "files w file_path = Some raw" and "read_denied sys = None"
      and "read_text raw = Inl e"
  | raw content st e where "files w file_path = Some raw" and "read_denied sys = None"
      and "read_text raw = Inr content" and "fixed_content content = Inl (st, e)"
  | raw content fixed errno strerror where "files w file_path = Some raw"
      and "read_denied sys = None" and "read_text raw = Inr content"
      and "fixed_content content = Inr fixed" and "write_denied sys = Some (errno, strerror)"
  | raw content fixed e where "files w file_path = Some raw"
      and "read_denied sys = None" and "read_text raw = Inr content"
      and "fixed_content content = Inr fixed" and "write_denied sys = None"
      and "encode_utf8 (write_newlines (os_linesep (platform sys)) fixed) = Inl e"
  | raw content fixed out errno strerror accepted where "files w file_path = Some raw"
      and "read_denied sys = None" and "read_text raw = Inr content"
      and "fixed_content content = Inr fixed" and "write_denied sys = None"
      and "encode_utf8 (write_newlines (os_linesep (platform sys)) fixed) = Inr out"
      and "write_fails sys = Some (errno, strerror, accepted)"
  | raw content fixed out where "files w file_path = Some raw"
      and "read_denied sys = None" and "read_text raw = Inr content"
      and "fixed_content content = Inr fixed" and "write_denied sys = None"
      and "encode_utf8 (write_newlines (os_linesep (platform sys)) fixed) = Inr out"
      and "write_fails sys = None"
proof (cases "files w file_path")
  case None
  then show ?thesis by (rule that(1))
next
  case raw: (Some raw)
  show ?thesis
  proof (cases "read_denied sys")
    case (Some a)
    then show ?thesis using raw that(2) by (cases a) blast
  next
    case rd: None
    show ?thesis
    proof (cases "read_text raw")
      case (Inl e)
      then show ?thesis using raw rd that(3) by blast
    next
      case content: (Inr content)
      show ?thesis
      proof (cases "fixed_content content")
        case (Inl se)
        then show ?thesis using raw rd content that(4) by (cases se) blast
      next
        case fixed: (Inr fixed)
        show ?thesis
        proof (cases "write_denied sys")
          case (Some a)
          then show ?thesis using raw rd content fixed that(5) by (cases a) blast
        next
          case wd: None
          show ?thesis
          proof (cases "encode_utf8 (write_newlines (os_linesep (platform sys)) fixed)")
            case (Inl e)
            then show ?thesis using raw rd content fixed wd that(6) by blast
          next
            case out: (Inr out)
            show ?thesis
            proof (cases "write_fails sys")
              case (Some a)
              then show ?thesis using raw rd content fixed wd out that(7) by (cases a) blast
            next
              case None
              then show ?thesis using raw rd content fixed wd out that(8) by blast
            qed
          qed
        qed
      qed
    qed
  qed
qed

section \<open>The round trip\<close>

lemma ecole_read: "read_text [0xC3, 0x83, 0xC2, 0xA9, 0x63, 0x6F, 0x6C, 0x65] = Inr [0xC3, 0xA9, 0x63, 0x6F, 0x6C, 0x65]"
  by (simp add: read_text_def decode_utf8_def utf8_decode_loop.simps is_continuation_def)

lemma ecole_fixed: "fixed_content [0xC3, 0xA9, 0x63, 0x6F, 0x6C, 0x65] = Inr [0xE9, 0x63, 0x6F, 0x6C, 0x65]"
  by (simp add: fixed_content_def encode_cp1252_def encoding_table_low encoding_table_latin
      decode_utf8_def utf8_decode_loop.simps is_continuation_def)

lemma ecole_written:
  "encode_utf8 (write_newlines (os_linesep p) [0xE9, 0x63, 0x6F, 0x6C, 0x65])
     = Inr [0xC3, 0xA9, 0x63, 0x6F, 0x6C, 0x65]"
  by (simp add: write_newlines_def encode_utf8_def is_surrogate_def utf8_encode_char_def)

lemma ecole_run:
  "run (no_faults p) (world_with [0xC3, 0x83, 0xC2, 0xA9, 0x63, 0x6F, 0x6C, 0x65]) =
     \<lparr>outcome = None, uncaught = None,
      after = \<lparr>files = Map.empty(file_path \<mapsto> [0xC3, 0xA9, 0x63, 0x6F, 0x6C, 0x65]),
                trace = [OpenRead file_path, Print decoded_msg, OpenWrite file_path,
                         WriteText file_path [0xE9, 0x63, 0x6F, 0x6C, 0x65], Print fixed_msg]\<rparr>\<rparr>"
proof -
  let ?w = "world_with [0xC3, 0x83, 0xC2, 0xA9, 0x63, 0x6F, 0x6C, 0x65]"
  have "files ?w file_path = Some [0xC3, 0x83, 0xC2, 0xA9, 0x63, 0x6F, 0x6C, 0x65]"
    by (simp add: world_with_def)
  from run_success [OF this _ ecole_read ecole_fixed _ _ _, of "no_faults p"
      "[0xC3, 0xA9, 0x63, 0x6F, 0x6C, 0x65]"]
  show ?thesis
    by (simp add: no_faults_def ecole_written world_with_def)
qed

text \<open>
  Claim C2. Let \<open>t\<close> be a text whose corruption \<open>mojibake t\<close> (its UTF-8 octets read as
  Windows-1252) is defined. Then the repair of line 14, applied to the corrupted text,
  gives \<open>t\<close> back. In particular a file that holds the UTF-8 octets of the six characters
  U+00C3 U+00A9 c o l e is rewritten, on either platform, to the UTF-8 octets of the five
  characters U+00E9 c o l e.
\<close>

theorem mojibake_round_trip:
  assumes "is_pystr t" and "mojibake t = Inr c"
  shows "fixed_content c = Inr t
    \<and> (\<forall>p. files (after (run (no_faults p)
                (world_with [0xC3, 0x83, 0xC2, 0xA9, 0x63, 0x6F, 0x6C, 0x65]))) file_path
            = Some [0xC3, 0xA9, 0x63, 0x6F, 0x6C, 0x65])
    \<and> encode_utf8 [0xC3, 0xA9, 0x63, 0x6F, 0x6C, 0x65]
          = Inr [0xC3, 0x83, 0xC2, 0xA9, 0x63, 0x6F, 0x6C, 0x65]
    \<and> encode_utf8 [0xE9, 0x63, 0x6F, 0x6C, 0x65] = Inr [0xC3, 0xA9, 0x63, 0x6F, 0x6C, 0x65]"
proof (intro conjI allI)
  show "fixed_content c = Inr t"
    using assms by (rule fixed_content_mojibake [rotated])
  show "files (after (run (no_faults p)
                (world_with [0xC3, 0x83, 0xC2, 0xA9, 0x63, 0x6F, 0x6C, 0x65]))) file_path
            = Some [0xC3, 0xA9, 0x63, 0x6F, 0x6C, 0x65]" for p
    by (simp add: ecole_run)
  show "encode_utf8 [0xC3, 0xA9, 0x63, 0x6F, 0x6C, 0x65]
          = Inr [0xC3, 0x83, 0xC2, 0xA9, 0x63, 0x6F, 0x6C, 0x65]"
    by (simp add: encode_utf8_def is_surrogate_def utf8_encode_char_def)
  show "encode_utf8 [0xE9, 0x63, 0x6F, 0x6C, 0x65] = Inr [0xC3, 0xA9, 0x63, 0x6F, 0x6C, 0x65]"
    by (simp add: encode_utf8_def is_surrogate_def utf8_encode_char_def)
qed

theorem mojibake_round_trip_witness:
  "is_pystr [0x20AC, 0xE9] \<and> mojibake [0x20AC, 0xE9] = Inr [0xE2, 0x201A, 0xAC, 0xC3, 0xA9]
   \<and> fixed_content [0xE2, 0x201A, 0xAC, 0xC3, 0xA9] = Inr [0x20AC, 0xE9]"
proof -
  have h1: "is_pystr [0x20AC, 0xE9]"
    by (simp add: is_pystr_def)
  have "encode_utf8 [0x20AC, 0xE9] = Inr [0xE2, 0x82, 0xAC, 0xC3, 0xA9]"
    by (simp add: encode_utf8_def is_surrogate_def utf8_encode_char_def)
  then have h2: "mojibake [0x20AC, 0xE9] = Inr [0xE2, 0x201A, 0xAC, 0xC3, 0xA9]"
    by (simp add: mojibake_def decode_cp1252_def decoding_table_low decoding_table_latin
        decoding_table_high cp1252_high_def)
  from mojibake_round_trip [OF h1 h2]
  have "fixed_content [0xE2, 0x201A, 0xAC, 0xC3, 0xA9] = Inr [0x20AC, 0xE9]"
    by (rule conjunct1)
  with h1 h2 show ?thesis by simp
qed

section \<open>Failures before the write\<close>

lemma except_clauses_reported:
  "report e = Some msg \<Longrightarrow>
   except_clauses None st e \<lparr>files = f, trace = t\<rparr> =
     \<lparr>outcome = Some (st, e), uncaught = None, after = \<lparr>files = f, trace = t @ [Print msg]\<rparr>\<rparr>"
  by (simp add: except_clauses_def print_def emit_def)

lemma events_after:
  "after (run sys w) = \<lparr>files = f, trace = trace w @ evs\<rparr> \<Longrightarrow> events sys w = evs"
  by (simp add: events_def)

lemma printed_events: "events sys w = evs \<Longrightarrow>
  printed sys w = concat (map (\<lambda>ev. case ev of Print s \<Rightarrow> [s] | _ \<Rightarrow> []) evs)"
  by (simp add: printed_def)

lemma encoding_table_CR: "encoding_table 13 = Some 13"
  by (simp add: encoding_table_low)

lemma universal_newlines_keeps:
  "c \<in> set s \<Longrightarrow> c \<noteq> 13 \<Longrightarrow> c \<in> set (universal_newlines s)"
  by (induction s rule: universal_newlines.induct) (auto split: if_splits)

lemma charmap_encode_loop_fails:
  "c \<in> set s \<Longrightarrow> encoding_table c = None \<Longrightarrow> \<exists>e. charmap_encode_loop obj pos s = Inl e"
proof (induction s arbitrary: pos)
  case Nil
  then show ?case by simp
next
  case (Cons a s)
  show ?case
  proof (cases "encoding_table a")
    case None
    then show ?thesis by simp
  next
    case (Some b)
    with Cons.prems have "c \<in> set s" by auto
    from Cons.IH [OF this Cons.prems(2), of "pos + 1"]
    obtain e where "charmap_encode_loop obj (pos + 1) s = Inl e" ..
    then show ?thesis using Some by simp
  qed
qed

lemma encode_cp1252_fails:
  assumes "c \<in> set s" and "encoding_table c = None"
  shows "\<exists>e. encode_cp1252 s = Inl e \<and> is_EncodeError e"
proof -
  from charmap_encode_loop_fails [OF assms, of s 0]
  obtain e where "charmap_encode_loop s 0 s = Inl e" ..
  then have "encode_cp1252 s = Inl e" by (simp add: encode_cp1252_def)
  then show ?thesis using encode_cp1252_error by blast
qed

lemma run_failed_in_memory:
  assumes "files w file_path = Some raw" and "read_denied sys = None"
    and r: "run sys w = except_clauses None st e \<lparr>files = files w, trace = trace w @ [OpenRead file_path]\<rparr>"
    and m: "report e = Some msg"
  shows "outcome (run sys w) = Some (st, e) \<and> uncaught (run sys w) = None
    \<and> events sys w = [OpenRead file_path, Print msg] \<and> printed sys w = [msg]
    \<and> files (after (run sys w)) = files w"
proof -
  have a: "run sys w = \<lparr>outcome = Some (st, e), uncaught = None,
      after = \<lparr>files = files w, trace = trace w @ [OpenRead file_path, Print msg]\<rparr>\<rparr>"
    by (simp add: r except_clauses_reported [OF m])
  then have ev: "events sys w = [OpenRead file_path, Print msg]"
    by (simp add: events_def)
  show ?thesis using a ev by (simp add: printed_def)
qed

text \<open>
  Claim C3. If the file can be read, is valid UTF-8, and its decoded text holds a character
  that Windows-1252 cannot represent, the run stops at the encoding step with a
  \<^verbatim>\<open>UnicodeEncodeError\<close>, which the first clause reports with the encoding message; nothing
  else is done, and every file is as it was.
\<close>

theorem unencodable_text_fails:
  assumes "files w file_path = Some raw" and "read_denied sys = None"
    and "decode_utf8 raw = Inr text" and "c \<in> set text" and "encoding_table c = None"
  shows "\<exists>e. outcome (run sys w) = Some (EncodeStage, e) \<and> is_EncodeError e
    \<and> uncaught (run sys w) = None
    \<and> events sys w = [OpenRead file_path, Print (encode_error_msg @ str_exn e)]
    \<and> printed sys w = [encode_error_msg @ str_exn e]
    \<and> files (after (run sys w)) = files w"
proof -
  have content: "read_text raw = Inr (universal_newlines text)"
    using assms(3) by (simp add: read_text_def)
  have "c \<noteq> 13" using assms(5) encoding_table_CR by auto
  then have "c \<in> set (universal_newlines text)"
    using assms(4) by (simp add: universal_newlines_keeps)
  from encode_cp1252_fails [OF this assms(5)]
  obtain e where e: "encode_cp1252 (universal_newlines text) = Inl e" and ee: "is_EncodeError e"
    by blast
  then have "fixed_content (universal_newlines text) = Inl (EncodeStage, e)"
    by (simp add: fixed_content_def)
  from run_failed_in_memory [OF assms(1,2) run_transcode_error [OF assms(1,2) content this]
      report_EncodeError [OF ee]] ee
  show ?thesis by blast
qed

theorem unencodable_text_fails_witness:
  "files (world_with [0xE4, 0xB8, 0xAD]) file_path = Some [0xE4, 0xB8, 0xAD]
   \<and> read_denied (no_faults Windows) = None
   \<and> decode_utf8 [0xE4, 0xB8, 0xAD] = Inr [0x4E2D] \<and> 0x4E2D \<in> set [0x4E2D :: nat]
   \<and> encoding_table 0x4E2D = None
   \<and> (\<exists>e. outcome (run (no_faults Windows) (world_with [0xE4, 0xB8, 0xAD])) = Some (EncodeStage, e)
        \<and> is_EncodeError e
        \<and> files (after (run (no_faults Windows) (world_with [0xE4, 0xB8, 0xAD])))
            = files (world_with [0xE4, 0xB8, 0xAD]))"
proof -
  have h1: "files (world_with [0xE4, 0xB8, 0xAD]) file_path = Some [0xE4, 0xB8, 0xAD]"
    by (simp add: world_with_def)
  have h2: "read_denied (no_faults Windows) = None"
    by (simp add: no_faults_def)
  have h3: "decode_utf8 [0xE4, 0xB8, 0xAD] = Inr [0x4E2D]"
    by (simp add: decode_utf8_def utf8_decode_loop.simps is_continuation_def)
  have h4: "0x4E2D \<in> set [0x4E2D :: nat]"
    by simp
  have h5: "encoding_table 0x4E2D = None"
    by (simp add: encoding_table_high cp1252_high_def)
  from unencodable_text_fails [OF h1 h2 h3 h4 h5]
  show ?thesis using h1 h2 h3 h5 by auto
qed

text \<open>
  Claim C4. If the text read from the file encodes under Windows-1252 to octets that are
  not valid UTF-8, the run stops at the decoding step with a \<^verbatim>\<open>UnicodeDecodeError\<close>, which
  the second clause reports with the decoding message; every file is as it was.
\<close>

theorem undecodable_octets_fail:
  assumes "files w file_path = Some raw" and "read_denied sys = None"
    and "read_text raw = Inr content" and "encode_cp1252 content = Inr bs"
    and "decode_utf8 bs = Inl e"
  shows "outcome (run sys w) = Some (DecodeStage, e) \<and> is_DecodeError e
    \<and> uncaught (run sys w) = None
    \<and> events sys w = [OpenRead file_path, Print (decode_error_msg @ str_exn e)]
    \<and> printed sys w = [decode_error_msg @ str_exn e]
    \<and> files (after (run sys w)) = files w"
proof -
  have de: "is_DecodeError e" using assms(5) by (rule decode_utf8_error)
  have "fixed_content content = Inl (DecodeStage, e)"
    using assms(4,5) by (simp add: fixed_content_def)
  from run_failed_in_memory [OF assms(1,2) run_transcode_error [OF assms(1,2,3) this]
      report_DecodeError [OF de]] de
  show ?thesis by blast
qed

theorem undecodable_octets_fail_witness:
  "files (world_with [0xC3, 0xBF]) file_path = Some [0xC3, 0xBF]
   \<and> read_denied (no_faults Windows) = None
   \<and> read_text [0xC3, 0xBF] = Inr [0xFF] \<and> encode_cp1252 [0xFF] = Inr [0xFF]
   \<and> decode_utf8 [0xFF] = Inl (UnicodeDecodeError ''utf-8'' [0xFF] 0 1 ''invalid start byte'')
   \<and> outcome (run (no_faults Windows) (world_with [0xC3, 0xBF]))
       = Some (DecodeStage, UnicodeDecodeError ''utf-8'' [0xFF] 0 1 ''invalid start byte'')
   \<and> files (after (run (no_faults Windows) (world_with [0xC3, 0xBF])))
       = files (world_with [0xC3, 0xBF])"
proof -
  have h1: "files (world_with [0xC3, 0xBF]) file_path = Some [0xC3, 0xBF]"
    by (simp add: world_with_def)
  have h2: "read_denied (no_faults Windows) = None"
    by (simp add: no_faults_def)
  have h3: "read_text [0xC3, 0xBF] = Inr [0xFF]"
    by (simp add: read_text_def decode_utf8_def utf8_decode_loop.simps is_continuation_def)
  have h4: "encode_cp1252 [0xFF] = Inr [0xFF]"
    by (simp add: encode_cp1252_def encoding_table_latin)
  have h5: "decode_utf8 [0xFF] = Inl (UnicodeDecodeError ''utf-8'' [0xFF] 0 1 ''invalid start byte'')"
    by (simp add: decode_utf8_def utf8_decode_loop.simps bad_start_def)
  from undecodable_octets_fail [OF h1 h2 h3 h4 h5]
  show ?thesis using h1 h2 h3 h4 h5 by simp
qed

text \<open>
  Claim C5. If the octets of the file are not valid UTF-8, the run stops at the read stage
  with a \<^verbatim>\<open>UnicodeDecodeError\<close>: the only things it does are to open the file for reading
  and to print the report. Line 14 is not reached, the file is never opened for writing,
  and every file is as it was.
\<close>

theorem invalid_input_fails_at_read:
  assumes "files w file_path = Some raw" and "read_denied sys = None"
    and "decode_utf8 raw = Inl e"
  shows "outcome (run sys w) = Some (ReadStage, e) \<and> is_DecodeError e
    \<and> uncaught (run sys w) = None
    \<and> events sys w = [OpenRead file_path, Print (decode_error_msg @ str_exn e)]
    \<and> files (after (run sys w)) = files w"
proof -
  have de: "is_DecodeError e" using assms(3) by (rule decode_utf8_error)
  have "read_text raw = Inl e"
    using assms(3) by (simp add: read_text_def)
  from run_failed_in_memory [OF assms(1,2) run_read_error [OF assms(1,2) this]
      report_DecodeError [OF de]] de
  show ?thesis by blast
qed

theorem invalid_input_fails_at_read_witness:
  "files (world_with [0x61, 0xE9]) file_path = Some [0x61, 0xE9]
   \<and> read_denied (no_faults Windows) = None
   \<and> decode_utf8 [0x61, 0xE9]
       = Inl (UnicodeDecodeError ''utf-8'' [0x61, 0xE9] 1 2 ''unexpected end of data'')
   \<and> outcome (run (no_faults Windows) (world_with [0x61, 0xE9]))
       = Some (ReadStage, UnicodeDecodeError ''utf-8'' [0x61, 0xE9] 1 2 ''unexpected end of data'')
   \<and> events (no_faults Windows) (world_with [0x61, 0xE9])
       = [OpenRead file_path, Print (decode_error_msg
            @ str_exn (UnicodeDecodeError ''utf-8'' [0x61, 0xE9] 1 2 ''unexpected end of data''))]
   \<and> files (after (run (no_faults Windows) (world_with [0x61, 0xE9])))
       = files (world_with [0x61, 0xE9])"
proof -
  have h1: "files (world_with [0x61, 0xE9]) file_path = Some [0x61, 0xE9]"
    by (simp add: world_with_def)
  have h2: "read_denied (no_faults Windows) = None"
    by (simp add: no_faults_def)
  have h3: "decode_utf8 [0x61, 0xE9]
       = Inl (UnicodeDecodeError ''utf-8'' [0x61, 0xE9] 1 2 ''unexpected end of data'')"
    by (simp add: decode_utf8_def utf8_decode_loop.simps end_of_data_def)
  from invalid_input_fails_at_read [OF h1 h2 h3]
  show ?thesis using h1 h2 h3 by simp
qed

section \<open>Every run, path by path\<close>

lemma failed_run:
  assumes "run sys w = except_clauses None st e \<lparr>files = f, trace = trace w @ evs\<rparr>"
    and "report e = Some msg"
  shows "outcome (run sys w) = Some (st, e)" and "uncaught (run sys w) = None"
    and "events sys w = evs @ [Print msg]" and "files (after (run sys w)) = f"
  by (simp_all add: assms(1) except_clauses_reported [OF assms(2)] events_def)

lemma succeeded_run:
  assumes "run sys w = \<lparr>outcome = None, uncaught = None,
      after = \<lparr>files = f, trace = trace w @ evs\<rparr>\<rparr>"
  shows "outcome (run sys w) = None" and "uncaught (run sys w) = None"
    and "events sys w = evs" and "files (after (run sys w)) = f"
  by (simp_all add: assms events_def)

lemma report_transcode_error:
  assumes "fixed_content content = Inl (st, e)"
  shows "st \<noteq> WriteStage \<and> st \<noteq> ReadStage \<and> (\<exists>msg. report e = Some msg)"
  using fixed_content_error [OF assms] report_EncodeError report_DecodeError by auto

text \<open>With a standard output that works, every failure ends in one printed report.\<close>

lemma run_failures_reported:
  "uncaught (run sys w) = None
   \<and> (\<forall>st e. outcome (run sys w) = Some (st, e) \<longrightarrow>
         (\<exists>msg. report e = Some msg
            \<and> printed sys w = (if st = WriteStage then [decoded_msg, msg] else [msg])))
   \<and> (files w file_path = None \<longrightarrow>
         outcome (run sys w)
           = Some (ReadStage, OSError 2 ''No such file or directory'' (Some file_path))
         \<and> events sys w = [OpenRead file_path,
              Print (other_error_msg
                @ str_exn (OSError 2 ''No such file or directory'' (Some file_path)))]
         \<and> files (after (run sys w)) = files w)"
proof (cases rule: run_cases [where w = w and sys = sys])
  case not_found
  note r = failed_run [OF run_not_found [OF not_found] report_OSError]
  show ?thesis using r by (simp add: printed_def)
next
  case (read_denied raw errno strerror)
  note r = failed_run [OF run_read_denied [OF read_denied] report_OSError]
  show ?thesis using r read_denied(1) by (simp add: printed_def)
next
  case (read_error raw e)
  note r = failed_run [OF run_read_error [OF read_error]
      report_DecodeError [OF read_text_error [OF read_error(3)]]]
  show ?thesis using r read_error(1) read_text_error [OF read_error(3)]
    by (simp add: printed_def report_DecodeError)
next
  case (transcode_error raw content st e)
  from report_transcode_error [OF transcode_error(4)]
  obtain msg where st: "st \<noteq> WriteStage" and msg: "report e = Some msg" by blast
  note r = failed_run [OF run_transcode_error [OF transcode_error] msg]
  show ?thesis using r transcode_error(1) st msg by (simp add: printed_def)
next
  case (write_denied raw content fixed errno strerror)
  note r = failed_run [OF run_write_denied [OF write_denied] report_OSError]
  show ?thesis using r write_denied(1) by (simp add: printed_def)
next
  case (write_encode_error raw content fixed e)
  note ee = encode_utf8_error [OF write_encode_error(6)]
  note r = failed_run [OF run_write_encode_error [OF write_encode_error] report_EncodeError [OF ee]]
  show ?thesis using r write_encode_error(1) ee by (simp add: printed_def report_EncodeError)
next
  case (write_fails raw content fixed out errno strerror accepted)
  note r = failed_run [OF run_write_fails [OF write_fails] report_OSError]
  show ?thesis using r write_fails(1) by (simp add: printed_def)
next
  case (success raw content fixed out)
  note r = succeeded_run [OF run_success [OF success]]
  show ?thesis using r success(1) by simp
qed


lemma trace_world_with: "trace (world_with raw) = []"
  by (simp add: world_with_def)

lemma files_world_with: "files (world_with raw) = Map.empty(file_path \<mapsto> raw)"
  by (simp add: world_with_def)

lemma hi_read: "read_text [0x68, 0x69] = Inr [0x68, 0x69]"
  by (simp add: read_text_def decode_utf8_def utf8_decode_loop.simps)

lemma hi_fixed: "fixed_content [0x68, 0x69] = Inr [0x68, 0x69]"
  by (simp add: fixed_content_def encode_cp1252_def encoding_table_low
      decode_utf8_def utf8_decode_loop.simps)

lemma hi_written:
  "encode_utf8 (write_newlines (os_linesep p) [0x68, 0x69]) = Inr [0x68, 0x69]"
  by (simp add: write_newlines_def encode_utf8_def is_surrogate_def utf8_encode_char_def)

lemma full_disk_run:
  "run (full_disk p) (world_with [0x68, 0x69]) =
     \<lparr>outcome = Some (WriteStage, OSError 28 ''No space left on device'' None),
      uncaught = None,
      after = \<lparr>files = Map.empty(file_path \<mapsto> []),
                trace = [OpenRead file_path, Print decoded_msg, OpenWrite file_path,
                         WriteText file_path [0x68, 0x69],
                         Print (other_error_msg
                           @ str_exn (OSError 28 ''No space left on device'' None))]\<rparr>\<rparr>"
proof -
  have "files (world_with [0x68, 0x69]) file_path = Some [0x68, 0x69]"
    by (simp add: world_with_def)
  from run_write_fails [OF this _ hi_read hi_fixed _ hi_written, of "full_disk p"
      28 "''No space left on device''" 0]
  show ?thesis
    by (simp add: full_disk_def no_faults_def world_with_def except_clauses_def
        print_def emit_def)
qed

text \<open>
  Claim C9. In every run that opens the file for writing, the decoded message has been
  printed before; so a run that fails in the write stage has printed it.
\<close>

theorem decoded_message_precedes_write:
  "(OpenWrite file_path \<in> set (events sys w) \<longrightarrow>
      happens_before (Print decoded_msg) (OpenWrite file_path) (events sys w))
   \<and> (\<forall>e. outcome (run sys w) = Some (WriteStage, e) \<longrightarrow>
         OpenWrite file_path \<in> set (events sys w) \<and> decoded_msg \<in> set (printed sys w))"
proof (cases rule: run_cases [where w = w and sys = sys])
  case not_found
  note r = failed_run [OF run_not_found [OF not_found] report_OSError]
  show ?thesis using r by simp
next
  case (read_denied raw errno strerror)
  note r = failed_run [OF run_read_denied [OF read_denied] report_OSError]
  show ?thesis using r by simp
next
  case (read_error raw e)
  note r = failed_run [OF run_read_error [OF read_error]
      report_DecodeError [OF read_text_error [OF read_error(3)]]]
  show ?thesis using r by simp
next
  case (transcode_error raw content st e)
  from report_transcode_error [OF transcode_error(4)]
  obtain msg where st: "st \<noteq> WriteStage" and msg: "report e = Some msg" by blast
  note r = failed_run [OF run_transcode_error [OF transcode_error] msg]
  show ?thesis using r st by simp
next
  case (write_denied raw content fixed errno strerror)
  note r = failed_run [OF run_write_denied [OF write_denied] report_OSError]
  show ?thesis using r by (simp add: happens_before_def printed_def)
next
  case (write_encode_error raw content fixed e)
  note ee = encode_utf8_error [OF write_encode_error(6)]
  note r = failed_run [OF run_write_encode_error [OF write_encode_error] report_EncodeError [OF ee]]
  show ?thesis using r by (simp add: happens_before_def printed_def)
next
  case (write_fails raw content fixed out errno strerror accepted)
  note r = failed_run [OF run_write_fails [OF write_fails] report_OSError]
  show ?thesis using r by (simp add: happens_before_def printed_def)
next
  case (success raw content fixed out)
  note r = succeeded_run [OF run_success [OF success]]
  show ?thesis using r by (simp add: happens_before_def)
qed

theorem decoded_message_precedes_write_witness:
  "OpenWrite file_path \<in> set (events (full_disk Windows) (world_with [0x68, 0x69]))
   \<and> outcome (run (full_disk Windows) (world_with [0x68, 0x69]))
       = Some (WriteStage, OSError 28 ''No space left on device'' None)
   \<and> happens_before (Print decoded_msg) (OpenWrite file_path)
        (events (full_disk Windows) (world_with [0x68, 0x69]))
   \<and> decoded_msg \<in> set (printed (full_disk Windows) (world_with [0x68, 0x69]))"
proof -
  have h1: "OpenWrite file_path \<in> set (events (full_disk Windows) (world_with [0x68, 0x69]))"
    by (simp add: events_def full_disk_run trace_world_with)
  have h2: "outcome (run (full_disk Windows) (world_with [0x68, 0x69]))
       = Some (WriteStage, OSError 28 ''No space left on device'' None)"
    by (simp add: full_disk_run)
  from decoded_message_precedes_write [of "full_disk Windows" "world_with [0x68, 0x69]"]
  show ?thesis using h1 h2 by simp
qed

text \<open>
  Claim C1 does not hold as stated. When the device refuses the data after the file has been
  opened for writing, the run has failed and the file, which held two octets, is empty.
\<close>

theorem failed_write_truncates_counterexample:
  "outcome (run (full_disk Windows) (world_with [0x68, 0x69]))
       = Some (WriteStage, OSError 28 ''No space left on device'' None)
   \<and> files (world_with [0x68, 0x69]) file_path = Some [0x68, 0x69]
   \<and> files (after (run (full_disk Windows) (world_with [0x68, 0x69]))) file_path = Some []"
  by (simp add: full_disk_run files_world_with)

text \<open>
  Claim C1, amended. If a run fails at the read, at the encoding or at the decoding, or
  because the file cannot be opened for writing, every file is afterwards as it was. The
  file is opened for writing only when the text has been read and repaired in memory, and
  no file changes in a run that has not opened it for writing.
\<close>

theorem file_kept_unless_write_begun:
  "(\<forall>st e. outcome (run sys w) = Some (st, e) \<and> (st \<noteq> WriteStage \<or> write_denied sys \<noteq> None)
        \<longrightarrow> files (after (run sys w)) = files w)
   \<and> (OpenWrite file_path \<in> set (events sys w) \<longrightarrow>
        (\<exists>raw content fixed. files w file_path = Some raw \<and> read_text raw = Inr content
            \<and> fixed_content content = Inr fixed))
   \<and> (files (after (run sys w)) \<noteq> files w \<longrightarrow> OpenWrite file_path \<in> set (events sys w))"
proof (cases rule: run_cases [where w = w and sys = sys])
  case not_found
  note r = failed_run [OF run_not_found [OF not_found] report_OSError]
  show ?thesis using r by simp
next
  case (read_denied raw errno strerror)
  note r = failed_run [OF run_read_denied [OF read_denied] report_OSError]
  show ?thesis using r by simp
next
  case (read_error raw e)
  note r = failed_run [OF run_read_error [OF read_error]
      report_DecodeError [OF read_text_error [OF read_error(3)]]]
  show ?thesis using r by simp
next
  case (transcode_error raw content st e)
  from report_transcode_error [OF transcode_error(4)]
  obtain msg where msg: "report e = Some msg" by blast
  note r = failed_run [OF run_transcode_error [OF transcode_error] msg]
  show ?thesis using r by simp
next
  case (write_denied raw content fixed errno strerror)
  note r = failed_run [OF run_write_denied [OF write_denied] report_OSError]
  show ?thesis using r write_denied by simp
next
  case (write_encode_error raw content fixed e)
  note ee = encode_utf8_error [OF write_encode_error(6)]
  note r = failed_run [OF run_write_encode_error [OF write_encode_error] report_EncodeError [OF ee]]
  show ?thesis using r write_encode_error by simp
next
  case (write_fails raw content fixed out errno strerror accepted)
  note r = failed_run [OF run_write_fails [OF write_fails] report_OSError]
  show ?thesis using r write_fails by simp
next
  case (success raw content fixed out)
  note r = succeeded_run [OF run_success [OF success]]
  show ?thesis using r success by simp
qed


lemma invalid_start_run:
  "run (no_faults p) (world_with [0xFF]) =
     \<lparr>outcome = Some (ReadStage, UnicodeDecodeError ''utf-8'' [0xFF] 0 1 ''invalid start byte''),
      uncaught = None,
      after = \<lparr>files = Map.empty(file_path \<mapsto> [0xFF]),
                trace = [OpenRead file_path,
                         Print (decode_error_msg @ str_exn
                           (UnicodeDecodeError ''utf-8'' [0xFF] 0 1 ''invalid start byte''))]\<rparr>\<rparr>"
proof -
  have f: "files (world_with [0xFF]) file_path = Some [0xFF]"
    by (simp add: world_with_def)
  have "read_text [0xFF] = Inl (UnicodeDecodeError ''utf-8'' [0xFF] 0 1 ''invalid start byte'')"
    by (simp add: read_text_def decode_utf8_def utf8_decode_loop.simps bad_start_def)
  from run_read_error [OF f _ this, of "no_faults p"]
  show ?thesis
    by (simp add: no_faults_def world_with_def except_clauses_def print_def emit_def)
qed

lemma y_diaeresis_run:
  "run (no_faults p) (world_with [0xC3, 0xBF]) =
     \<lparr>outcome = Some (DecodeStage, UnicodeDecodeError ''utf-8'' [0xFF] 0 1 ''invalid start byte''),
      uncaught = None,
      after = \<lparr>files = Map.empty(file_path \<mapsto> [0xC3, 0xBF]),
                trace = [OpenRead file_path,
                         Print (decode_error_msg @ str_exn
                           (UnicodeDecodeError ''utf-8'' [0xFF] 0 1 ''invalid start byte''))]\<rparr>\<rparr>"
proof -
  have f: "files (world_with [0xC3, 0xBF]) file_path = Some [0xC3, 0xBF]"
    by (simp add: world_with_def)
  have r: "read_text [0xC3, 0xBF] = Inr [0xFF]"
    by (simp add: read_text_def decode_utf8_def utf8_decode_loop.simps is_continuation_def)
  have "fixed_content [0xFF]
      = Inl (DecodeStage, UnicodeDecodeError ''utf-8'' [0xFF] 0 1 ''invalid start byte'')"
    by (simp add: fixed_content_def encode_cp1252_def encoding_table_latin
        decode_utf8_def utf8_decode_loop.simps bad_start_def)
  from run_transcode_error [OF f _ r this, of "no_faults p"]
  show ?thesis
    by (simp add: no_faults_def world_with_def except_clauses_def print_def emit_def)
qed

theorem file_kept_unless_write_begun_witness:
  "outcome (run (no_faults Windows) (world_with [0xFF]))
     = Some (ReadStage, UnicodeDecodeError ''utf-8'' [0xFF] 0 1 ''invalid start byte'')
   \<and> ReadStage \<noteq> WriteStage
   \<and> files (after (run (no_faults Windows) (world_with [0xFF]))) = files (world_with [0xFF])
   \<and> OpenWrite file_path \<in> set (events (full_disk Windows) (world_with [0x68, 0x69]))
   \<and> files (after (run (full_disk Windows) (world_with [0x68, 0x69])))
        \<noteq> files (world_with [0x68, 0x69])
   \<and> (\<exists>raw content fixed. files (world_with [0x68, 0x69]) file_path = Some raw
         \<and> read_text raw = Inr content \<and> fixed_content content = Inr fixed)"
proof -
  have h1: "outcome (run (no_faults Windows) (world_with [0xFF]))
     = Some (ReadStage, UnicodeDecodeError ''utf-8'' [0xFF] 0 1 ''invalid start byte'')"
    by (simp add: invalid_start_run)
  have h2: "files (after (run (full_disk Windows) (world_with [0x68, 0x69])))
        \<noteq> files (world_with [0x68, 0x69])"
  proof
    assume "files (after (run (full_disk Windows) (world_with [0x68, 0x69])))
        = files (world_with [0x68, 0x69])"
    then have "files (after (run (full_disk Windows) (world_with [0x68, 0x69]))) file_path
        = files (world_with [0x68, 0x69]) file_path" by simp
    then show False by (simp add: full_disk_run files_world_with)
  qed
  from file_kept_unless_write_begun [of "no_faults Windows" "world_with [0xFF]"] h1
  have a: "files (after (run (no_faults Windows) (world_with [0xFF]))) = files (world_with [0xFF])"
    by blast
  from file_kept_unless_write_begun [of "full_disk Windows" "world_with [0x68, 0x69]"] h2
  have b: "OpenWrite file_path \<in> set (events (full_disk Windows) (world_with [0x68, 0x69]))"
    and c: "\<exists>raw content fixed. files (world_with [0x68, 0x69]) file_path = Some raw
         \<and> read_text raw = Inr content \<and> fixed_content content = Inr fixed"
    by blast+
  show ?thesis using h1 h2 a b c by simp
qed

text \<open>
  Claim C6 does not hold as stated. One run fails when it reads a file that is not UTF-8,
  the other when it decodes the octets of a file that is; both print the same line.
\<close>

theorem decode_stage_not_identified_counterexample:
  "outcome (run (no_faults Windows) (world_with [0xFF]))
     = Some (ReadStage, UnicodeDecodeError ''utf-8'' [0xFF] 0 1 ''invalid start byte'')
   \<and> outcome (run (no_faults Windows) (world_with [0xC3, 0xBF]))
     = Some (DecodeStage, UnicodeDecodeError ''utf-8'' [0xFF] 0 1 ''invalid start byte'')
   \<and> printed (no_faults Windows) (world_with [0xFF])
     = printed (no_faults Windows) (world_with [0xC3, 0xBF])"
  by (simp add: printed_def events_def invalid_start_run y_diaeresis_run trace_world_with)

lemma reported_as_decode_decode: "reported_as_decode (decode_error_msg @ x)"
  by (simp add: reported_as_decode_def)

lemma reported_as_decode_encode: "\<not> reported_as_decode (encode_error_msg @ x)"
  by (simp add: reported_as_decode_def decode_error_msg_def encode_error_msg_def)

lemma reported_as_decode_other: "\<not> reported_as_decode (other_error_msg @ x)"
  by (simp add: reported_as_decode_def decode_error_msg_def other_error_msg_def)

lemma EncodeError_not_DecodeError: "is_EncodeError e \<Longrightarrow> \<not> is_DecodeError e"
  by (cases e) simp_all

text \<open>
  Claim C6, amended. A \<^verbatim>\<open>UnicodeDecodeError\<close> arises at the read stage or at the decoding
  step only, and at either it is reported by the same clause: the decoding message followed
  by the text of the exception. A failure at the decoding step is always such an error. The
  line printed last starts with the decoding message exactly when the failure is a
  \<^verbatim>\<open>UnicodeDecodeError\<close>, so the report tells a decoding failure from the others, not the
  stage at which it arose.
\<close>

theorem decode_failures_share_one_report:
  assumes "outcome (run sys w) = Some (st, e)"
  shows "(is_DecodeError e \<longrightarrow>
            (st = ReadStage \<or> st = DecodeStage)
            \<and> printed sys w = [decode_error_msg @ str_exn e])
    \<and> (st = DecodeStage \<longrightarrow> is_DecodeError e)
    \<and> (reported_as_decode (last (printed sys w)) \<longleftrightarrow> is_DecodeError e)"
proof (cases rule: run_cases [where w = w and sys = sys])
  case not_found
  note r = failed_run [OF run_not_found [OF not_found] report_OSError]
  show ?thesis using r assms by (auto simp add: printed_def reported_as_decode_other)
next
  case (read_denied raw errno strerror)
  note r = failed_run [OF run_read_denied [OF read_denied] report_OSError]
  show ?thesis using r assms by (auto simp add: printed_def reported_as_decode_other)
next
  case (read_error raw e')
  note de = read_text_error [OF read_error(3)]
  note r = failed_run [OF run_read_error [OF read_error] report_DecodeError [OF de]]
  show ?thesis using r assms de by (auto simp add: printed_def reported_as_decode_decode)
next
  case (transcode_error raw content st' e')
  from fixed_content_error [OF transcode_error(4)]
  consider (enc) "st' = EncodeStage" "is_EncodeError e'" | (dec) "st' = DecodeStage" "is_DecodeError e'"
    by blast
  then show ?thesis
  proof cases
    case enc
    note r = failed_run [OF run_transcode_error [OF transcode_error] report_EncodeError [OF enc(2)]]
    show ?thesis using r assms enc EncodeError_not_DecodeError [OF enc(2)]
      by (auto simp add: printed_def reported_as_decode_encode)
  next
    case dec
    note r = failed_run [OF run_transcode_error [OF transcode_error] report_DecodeError [OF dec(2)]]
    show ?thesis using r assms dec by (auto simp add: printed_def reported_as_decode_decode)
  qed
next
  case (write_denied raw content fixed errno strerror)
  note r = failed_run [OF run_write_denied [OF write_denied] report_OSError]
  show ?thesis using r assms by (auto simp add: printed_def reported_as_decode_other)
next
  case (write_encode_error raw content fixed e')
  note ee = encode_utf8_error [OF write_encode_error(6)]
  note r = failed_run [OF run_write_encode_error [OF write_encode_error] report_EncodeError [OF ee]]
  show ?thesis using r assms EncodeError_not_DecodeError [OF ee]
    by (auto simp add: printed_def reported_as_decode_encode)
next
  case (write_fails raw content fixed out errno strerror accepted)
  note r = failed_run [OF run_write_fails [OF write_fails] report_OSError]
  show ?thesis using r assms by (auto simp add: printed_def reported_as_decode_other)
next
  case (success raw content fixed out)
  note r = succeeded_run [OF run_success [OF success]]
  show ?thesis using r assms by simp
qed

theorem decode_failures_share_one_report_witness:
  "outcome (run (no_faults Windows) (world_with [0xC3, 0xBF]))
     = Some (DecodeStage, UnicodeDecodeError ''utf-8'' [0xFF] 0 1 ''invalid start byte'')
   \<and> printed (no_faults Windows) (world_with [0xC3, 0xBF])
     = [decode_error_msg
         @ str_exn (UnicodeDecodeError ''utf-8'' [0xFF] 0 1 ''invalid start byte'')]
   \<and> reported_as_decode (last (printed (no_faults Windows) (world_with [0xC3, 0xBF])))"
proof -
  have h: "outcome (run (no_faults Windows) (world_with [0xC3, 0xBF]))
     = Some (DecodeStage, UnicodeDecodeError ''utf-8'' [0xFF] 0 1 ''invalid start byte'')"
    by (simp add: y_diaeresis_run)
  have d: "is_DecodeError (UnicodeDecodeError ''utf-8'' [0xFF] 0 1 ''invalid start byte'')"
    by simp
  from decode_failures_share_one_report [OF h] d
  have "printed (no_faults Windows) (world_with [0xC3, 0xBF])
     = [decode_error_msg
         @ str_exn (UnicodeDecodeError ''utf-8'' [0xFF] 0 1 ''invalid start byte'')]
   \<and> reported_as_decode (last (printed (no_faults Windows) (world_with [0xC3, 0xBF])))"
    by blast
  with h show ?thesis by blast
qed

section \<open>A standard output that fails\<close>

lemma print_outcomes:
  "print out s w = (Inr (), emit (Print s) w) \<and> out = None
   \<or> (\<exists>errno strerror. out = Some (errno, strerror)
        \<and> print out s w = (Inl (OSError errno strerror None), w))"
  by (cases out) (auto simp add: print_def)

lemma print_error:
  "print out s w = (Inl e, w') \<Longrightarrow>
     \<exists>errno strerror. out = Some (errno, strerror) \<and> e = OSError errno strerror None \<and> w' = w"
  by (cases out) (auto simp add: print_def)

lemma open_read_error: "open_read sys path w = (Inl e, w') \<Longrightarrow> \<exists>n m f. e = OSError n m f"
  by (auto simp add: open_read_def Let_def split: option.splits prod.splits)

lemma open_write_error: "open_write sys path w = (Inl e, w') \<Longrightarrow> \<exists>n m f. e = OSError n m f"
  by (auto simp add: open_write_def Let_def split: option.splits prod.splits)

lemma write_text_error:
  "write_text sys path t w = (Inl e, w') \<Longrightarrow> is_EncodeError e \<or> (\<exists>n m f. e = OSError n m f)"
  by (auto simp add: write_text_def Let_def split: sum.splits option.splits prod.splits
      dest: encode_utf8_error)

lemma try_body_reportable:
  assumes "try_body out sys w = (Inl (st, e), w')"
  shows "\<exists>msg. report e = Some msg"
proof -
  have "is_EncodeError e \<or> is_DecodeError e \<or> (\<exists>n m f. e = OSError n m f)"
    using assms
    by (auto simp add: try_body_def split: sum.splits prod.splits
        dest!: open_read_error open_write_error write_text_error print_error
          read_text_error fixed_content_error)
  then show ?thesis
    using report_EncodeError report_DecodeError report_OSError by blast
qed

lemma script_uncaught:
  assumes "uncaught (script out sys w) = Some x"
  shows "\<exists>errno strerror. out = Some (errno, strerror) \<and> x = OSError errno strerror None"
proof (cases "try_body out sys w")
  case (Pair r w')
  show ?thesis
  proof (cases r)
    case (Inr u)
    with Pair assms show ?thesis by (simp add: script_def)
  next
    case (Inl se)
    obtain st e where se: "se = (st, e)" by (cases se)
    from try_body_reportable [OF Pair [unfolded Inl se]]
    obtain msg where msg: "report e = Some msg" ..
    from assms have "uncaught (except_clauses out st e w') = Some x"
      by (simp add: script_def Pair Inl se)
    then show ?thesis
      using print_outcomes [of out msg w']
      by (auto simp add: except_clauses_def msg)
  qed
qed

lemma script_not_found:
  assumes "files w file_path = None"
  shows "outcome (script out sys w)
      = Some (ReadStage, OSError 2 ''No such file or directory'' (Some file_path))"
    and "files (after (script out sys w)) = files w"
    and "trace (after (script out sys w)) = trace w @ [OpenRead file_path]
      \<or> trace (after (script out sys w)) = trace w @ [OpenRead file_path,
           Print (other_error_msg
             @ str_exn (OSError 2 ''No such file or directory'' (Some file_path)))]"
  using assms
  by (cases out; simp add: script_def try_body_def open_read_def Let_def except_clauses_def
      print_def emit_def split: prod.splits)+

lemma broken_stdout_missing_file:
  "script (Some (5, ''Input/output error'')) (no_faults p) \<lparr>files = Map.empty, trace = []\<rparr> =
     \<lparr>outcome = Some (ReadStage, OSError 2 ''No such file or directory'' (Some file_path)),
      uncaught = Some (OSError 5 ''Input/output error'' None),
      after = \<lparr>files = Map.empty, trace = [OpenRead file_path]\<rparr>\<rparr>"
  by (simp add: script_def try_body_def open_read_def Let_def except_clauses_def
      print_def emit_def)

lemma broken_stdout_clean_file:
  "script (Some (5, ''Input/output error'')) (no_faults p) (world_with [0x68, 0x69]) =
     \<lparr>outcome = Some (PrintStage, OSError 5 ''Input/output error'' None),
      uncaught = Some (OSError 5 ''Input/output error'' None),
      after = \<lparr>files = Map.empty(file_path \<mapsto> [0x68, 0x69]), trace = [OpenRead file_path]\<rparr>\<rparr>"
  by (simp add: script_def try_body_def open_read_def Let_def except_clauses_def
      print_def emit_def world_with_def no_faults_def hi_read hi_fixed)

lemma script_outcome_reportable:
  assumes "outcome (script out sys w) = Some (st, e)"
  shows "\<exists>msg. report e = Some msg"
proof (cases "try_body out sys w")
  case (Pair r w')
  show ?thesis
  proof (cases r)
    case (Inr u)
    with Pair assms show ?thesis by (simp add: script_def)
  next
    case (Inl se)
    obtain st' e' where se: "se = (st', e')" by (cases se)
    from try_body_reportable [OF Pair [unfolded Inl se]]
    obtain msg where msg: "report e' = Some msg" ..
    from assms have "outcome (except_clauses out st' e' w') = Some (st, e)"
      by (simp add: script_def Pair Inl se)
    then have "e = e'"
      using print_outcomes [of out msg w'] by (auto simp add: except_clauses_def msg)
    with msg show ?thesis by simp
  qed
qed

text \<open>
  Claim C8 does not hold as stated. When standard output fails, the print of the clause that
  caught the error raises in its turn, and that exception leaves the script: so it is for a
  missing file, and for a clean file, where the print of line 16 fails first and is caught.
  Nor does any clause catch a \<^verbatim>\<open>KeyboardInterrupt\<close>.
\<close>

theorem failing_print_escapes_counterexample:
  "outcome (script (Some (5, ''Input/output error'')) (no_faults Windows)
      \<lparr>files = Map.empty, trace = []\<rparr>)
     = Some (ReadStage, OSError 2 ''No such file or directory'' (Some file_path))
   \<and> uncaught (script (Some (5, ''Input/output error'')) (no_faults Windows)
      \<lparr>files = Map.empty, trace = []\<rparr>)
     = Some (OSError 5 ''Input/output error'' None)
   \<and> outcome (script (Some (5, ''Input/output error'')) (no_faults Windows)
      (world_with [0x68, 0x69]))
     = Some (PrintStage, OSError 5 ''Input/output error'' None)
   \<and> uncaught (script (Some (5, ''Input/output error'')) (no_faults Windows)
      (world_with [0x68, 0x69]))
     = Some (OSError 5 ''Input/output error'' None)
   \<and> uncaught (except_clauses None ReadStage KeyboardInterrupt \<lparr>files = Map.empty, trace = []\<rparr>)
     = Some KeyboardInterrupt"
  by (simp add: broken_stdout_missing_file broken_stdout_clean_file except_clauses_def)

text \<open>
  Claim C8, amended. Every exception that the file operations, the codecs and the prints of
  the \<^verbatim>\<open>try\<close> body raise is caught by one of the three clauses. While standard output works,
  no exception leaves the script and a run that fails prints exactly one error message, the
  one its clause builds (after the decoded message when the failure is in the write stage).
  Whatever the state of standard output, the only exception that can leave the script is the
  \<^verbatim>\<open>OSError\<close> of a print that failed; and when there is no file at the path, the run fails at
  the read stage with the error of the operating system, does nothing but open the file for
  reading and, if it can, print the report of the last clause, and leaves every file as it
  was.
\<close>

theorem failures_reported_unless_print_fails:
  "uncaught (run sys w) = None
   \<and> (\<forall>st e. outcome (run sys w) = Some (st, e) \<longrightarrow>
         (\<exists>msg. report e = Some msg
            \<and> printed sys w = (if st = WriteStage then [decoded_msg, msg] else [msg])))
   \<and> (files w file_path = None \<longrightarrow>
         outcome (run sys w)
           = Some (ReadStage, OSError 2 ''No such file or directory'' (Some file_path))
         \<and> events sys w = [OpenRead file_path,
              Print (other_error_msg
                @ str_exn (OSError 2 ''No such file or directory'' (Some file_path)))]
         \<and> files (after (run sys w)) = files w)
   \<and> (\<forall>st e. outcome (script out sys w) = Some (st, e) \<longrightarrow> (\<exists>msg. report e = Some msg))
   \<and> (\<forall>x. uncaught (script out sys w) = Some x \<longrightarrow>
         (\<exists>errno strerror. out = Some (errno, strerror) \<and> x = OSError errno strerror None))
   \<and> (files w file_path = None \<longrightarrow>
         outcome (script out sys w)
           = Some (ReadStage, OSError 2 ''No such file or directory'' (Some file_path))
         \<and> files (after (script out sys w)) = files w
         \<and> (trace (after (script out sys w)) = trace w @ [OpenRead file_path]
            \<or> trace (after (script out sys w)) = trace w @ [OpenRead file_path,
                 Print (other_error_msg
                   @ str_exn (OSError 2 ''No such file or directory'' (Some file_path)))]))"
  using run_failures_reported [of sys w] script_outcome_reportable [of out sys w]
    script_uncaught [of out sys w] script_not_found [of w out sys]
  by blast

theorem failures_reported_unless_print_fails_witness:
  "files \<lparr>files = Map.empty, trace = []\<rparr> file_path = None
   \<and> uncaught (run (no_faults Windows) \<lparr>files = Map.empty, trace = []\<rparr>) = None
   \<and> outcome (run (no_faults Windows) \<lparr>files = Map.empty, trace = []\<rparr>)
       = Some (ReadStage, OSError 2 ''No such file or directory'' (Some file_path))
   \<and> events (no_faults Windows) \<lparr>files = Map.empty, trace = []\<rparr>
       = [OpenRead file_path,
          Print (other_error_msg
            @ str_exn (OSError 2 ''No such file or directory'' (Some file_path)))]
   \<and> files (after (run (no_faults Windows) \<lparr>files = Map.empty, trace = []\<rparr>)) = Map.empty
   \<and> uncaught (script (Some (5, ''Input/output error'')) (no_faults Windows)
        \<lparr>files = Map.empty, trace = []\<rparr>) = Some (OSError 5 ''Input/output error'' None)
   \<and> files (after (script (Some (5, ''Input/output error'')) (no_faults Windows)
        \<lparr>files = Map.empty, trace = []\<rparr>)) = Map.empty"
proof -
  have h: "files \<lparr>files = Map.empty, trace = []\<rparr> file_path = None"
    by simp
  have u: "uncaught (script (Some (5, ''Input/output error'')) (no_faults Windows)
        \<lparr>files = Map.empty, trace = []\<rparr>) = Some (OSError 5 ''Input/output error'' None)"
    by (simp add: broken_stdout_missing_file)
  from failures_reported_unless_print_fails [of "no_faults Windows"
      "\<lparr>files = Map.empty, trace = []\<rparr>" "Some (5, ''Input/output error'')"]
  show ?thesis using h u by simp
qed

section \<open>Determinism\<close>







section \<open>ASCII files\<close>

lemma ascii_decode_loop:
  "\<forall>b\<in>set bs. b < 0x80 \<Longrightarrow> utf8_decode_loop obj pos bs = Inr bs"
proof (induction bs arbitrary: pos)
  case Nil
  then show ?case by (simp add: utf8_decode_loop.simps)
next
  case (Cons b bs)
  from Cons.prems have b: "b < 0x80" and bs: "\<forall>b\<in>set bs. b < 0x80" by simp_all
  have "utf8_decode_loop obj pos (b # bs) =
      (case utf8_decode_loop obj (pos + 1) bs of Inl e \<Rightarrow> Inl e | Inr cs \<Rightarrow> Inr (b # cs))"
    using b by (subst utf8_decode_loop.simps) simp
  then show ?case using Cons.IH [OF bs, of "pos + 1"] by simp
qed

lemma ascii_charmap_encode_loop:
  "\<forall>c\<in>set s. c < 0x80 \<Longrightarrow> charmap_encode_loop obj pos s = Inr s"
  by (induction s arbitrary: pos) (simp_all add: encoding_table_low)

lemma ascii_utf8_encode_loop:
  "\<forall>c\<in>set s. c < 0x80 \<Longrightarrow> utf8_encode_loop obj pos s = Inr s"
  by (induction s arbitrary: pos) (simp_all add: is_surrogate_def utf8_encode_char_def)

lemma ascii_octets: "\<forall>c\<in>set s. c < (0x80::nat) \<Longrightarrow> \<forall>c\<in>set s. c < 256"
  by auto

lemma ascii_fixed_content:
  assumes "\<forall>c\<in>set s. c < 0x80"
  shows "fixed_content s = Inr s"
proof -
  have e: "encode_cp1252 s = Inr (map of_nat s)"
    by (simp add: encode_cp1252_def ascii_charmap_encode_loop [OF assms])
  have "map unat (map of_nat s :: byte list) = s"
    by (rule unat_of_nat_octets [OF ascii_octets [OF assms]])
  then have "decode_utf8 (map of_nat s) = Inr s"
    by (simp add: decode_utf8_def ascii_decode_loop [OF assms])
  with e show ?thesis by (simp add: fixed_content_def)
qed

lemma ascii_encode_utf8:
  assumes "\<forall>c\<in>set s. c < 0x80"
  shows "encode_utf8 s = Inr (map of_nat s)"
  by (simp add: encode_utf8_def ascii_utf8_encode_loop [OF assms])

lemma ascii_universal_newlines:
  "\<forall>c\<in>set s. c < 0x80 \<Longrightarrow> \<forall>c\<in>set (universal_newlines s). c < 0x80"
  by (induction s rule: universal_newlines.induct) auto

lemma ascii_write_newlines:
  "\<forall>c\<in>set s. c < 0x80 \<Longrightarrow> \<forall>c\<in>set (write_newlines (os_linesep p) s). c < 0x80"
  by (cases p) (auto simp add: write_newlines_def)

lemma universal_newlines_same: "13 \<notin> set s \<Longrightarrow> universal_newlines s = s"
  by (induction s rule: universal_newlines.induct) auto

lemma write_newlines_same: "10 \<notin> set s \<Longrightarrow> write_newlines ls s = s"
  by (induction s) (simp_all add: write_newlines_def)

lemma write_newlines_posix: "write_newlines [10] s = s"
  by (induction s) (simp_all add: write_newlines_def)

lemma unat_ascii:
  assumes "\<forall>b\<in>set raw. b < (0x80 :: byte)"
  shows "\<forall>c\<in>set (map unat raw). c < 0x80"
proof
  fix c assume "c \<in> set (map unat raw)"
  then obtain b where b: "b \<in> set raw" and c: "c = unat b" by auto
  from assms b have "b < 0x80" by simp
  then have "unat b < unat (0x80 :: byte)" by (simp only: word_less_nat_alt)
  then show "c < 0x80" by (simp add: c)
qed

lemma unat_absent:
  assumes "of_nat n \<notin> set (raw :: byte list)"
  shows "n \<notin> set (map unat raw)"
proof
  assume "n \<in> set (map unat raw)"
  then obtain b where b: "b \<in> set raw" and n: "n = unat b" by auto
  have "of_nat n = b" by (simp add: n)
  with b assms show False by simp
qed

lemma ascii_decode_utf8:
  assumes "\<forall>b\<in>set raw. b < (0x80 :: byte)"
  shows "decode_utf8 raw = Inr (map unat raw)"
  by (simp add: decode_utf8_def ascii_decode_loop [OF unat_ascii [OF assms]])

lemma ascii_run:
  assumes "files w file_path = Some raw" and "\<forall>b\<in>set raw. b < 0x80"
    and "read_denied sys = None" and "write_denied sys = None" and "write_fails sys = None"
  shows "run sys w = \<lparr>outcome = None, uncaught = None,
      after = \<lparr>files = (files w)(file_path \<mapsto>
                  map of_nat (write_newlines (os_linesep (platform sys))
                                (universal_newlines (map unat raw)))),
                trace = trace w @ [OpenRead file_path, Print decoded_msg, OpenWrite file_path,
                  WriteText file_path (universal_newlines (map unat raw)), Print fixed_msg]\<rparr>\<rparr>"
proof -
  let ?content = "universal_newlines (map unat raw)"
  have a: "\<forall>c\<in>set ?content. c < 0x80"
    by (rule ascii_universal_newlines [OF unat_ascii [OF assms(2)]])
  have r: "read_text raw = Inr ?content"
    by (simp add: read_text_def ascii_decode_utf8 [OF assms(2)])
  have f: "fixed_content ?content = Inr ?content"
    by (rule ascii_fixed_content [OF a])
  have e: "encode_utf8 (write_newlines (os_linesep (platform sys)) ?content)
      = Inr (map of_nat (write_newlines (os_linesep (platform sys)) ?content))"
    by (rule ascii_encode_utf8 [OF ascii_write_newlines [OF a]])
  show ?thesis
    by (rule run_success [OF assms(1,3) r f assms(4) e assms(5)])
qed

text \<open>
  Claim C7 does not hold as stated. Line breaks are ASCII, and the text layer rewrites them:
  on Windows a file of the three octets 61 0A 62 becomes 61 0D 0A 62, and on a POSIX system
  a file of the octets 61 0D 62 becomes 61 0A 62. Both runs succeed.
\<close>

theorem ascii_newlines_rewritten_counterexample:
  "outcome (run (no_faults Windows) (world_with [0x61, 0x0A, 0x62])) = None
   \<and> files (world_with [0x61, 0x0A, 0x62]) file_path = Some [0x61, 0x0A, 0x62]
   \<and> files (after (run (no_faults Windows) (world_with [0x61, 0x0A, 0x62]))) file_path
       = Some [0x61, 0x0D, 0x0A, 0x62]
   \<and> outcome (run (no_faults Posix) (world_with [0x61, 0x0D, 0x62])) = None
   \<and> files (world_with [0x61, 0x0D, 0x62]) file_path = Some [0x61, 0x0D, 0x62]
   \<and> files (after (run (no_faults Posix) (world_with [0x61, 0x0D, 0x62]))) file_path
       = Some [0x61, 0x0A, 0x62]"
proof -
  have f1: "files (world_with [0x61, 0x0A, 0x62]) file_path = Some [0x61, 0x0A, 0x62]"
    and f2: "files (world_with [0x61, 0x0D, 0x62]) file_path = Some [0x61, 0x0D, 0x62]"
    by (simp_all add: world_with_def)
  have n: "read_denied (no_faults p) = None" "write_denied (no_faults p) = None"
    "write_fails (no_faults p) = None" for p
    by (simp_all add: no_faults_def)
  have a1: "\<forall>b\<in>set [0x61, 0x0A, 0x62 :: byte]. b < 0x80"
    and a2: "\<forall>b\<in>set [0x61, 0x0D, 0x62 :: byte]. b < 0x80"
    by simp_all
  note r1 = ascii_run [OF f1 a1 n, of Windows]
  note r2 = ascii_run [OF f2 a2 n, of Posix]
  show ?thesis
    by (simp add: r1 r2 f1 f2) (simp add: no_faults_def write_newlines_def)
qed

text \<open>
  Claim C7, amended. For a file of ASCII octets only, and an operating system that raises no
  fault, the run succeeds and the repair of line 14 is the identity on the text read, which
  is the text written. The octets of the file afterwards are those of that text with each
  line feed written as the line separator of the platform; they are the octets of the input
  when the input has no carriage return and either has no line feed or the platform is
  POSIX.
\<close>

theorem ascii_text_kept_up_to_newlines:
  assumes "files w file_path = Some raw" and "\<forall>b\<in>set raw. b < 0x80"
    and "read_denied sys = None" and "write_denied sys = None" and "write_fails sys = None"
  shows "outcome (run sys w) = None
    \<and> read_text raw = Inr (universal_newlines (map unat raw))
    \<and> fixed_content (universal_newlines (map unat raw)) = Inr (universal_newlines (map unat raw))
    \<and> WriteText file_path (universal_newlines (map unat raw)) \<in> set (events sys w)
    \<and> files (after (run sys w)) file_path
        = Some (map of_nat (write_newlines (os_linesep (platform sys))
                  (universal_newlines (map unat raw))))
    \<and> (13 \<notin> set raw \<and> (10 \<notin> set raw \<or> platform sys = Posix) \<longrightarrow>
          files (after (run sys w)) = files w)"
proof -
  let ?content = "universal_newlines (map unat raw)"
  note r = succeeded_run [OF ascii_run [OF assms]]
  have a: "\<forall>c\<in>set ?content. c < 0x80"
    by (rule ascii_universal_newlines [OF unat_ascii [OF assms(2)]])
  have rt: "read_text raw = Inr ?content"
    by (simp add: read_text_def ascii_decode_utf8 [OF assms(2)])
  have same: "files (after (run sys w)) = files w"
    if cr: "13 \<notin> set raw" and lf: "10 \<notin> set raw \<or> platform sys = Posix"
  proof -
    have "13 \<notin> set (map unat raw)"
      using cr by (intro unat_absent) simp
    then have c: "?content = map unat raw"
      by (rule universal_newlines_same)
    have "write_newlines (os_linesep (platform sys)) (map unat raw) = map unat raw"
    proof (cases "platform sys = Posix")
      case True
      then show ?thesis by (simp add: write_newlines_posix)
    next
      case False
      with lf have "10 \<notin> set raw" by simp
      then have "10 \<notin> set (map unat raw)" by (intro unat_absent) simp
      then show ?thesis by (rule write_newlines_same)
    qed
    then have "files (after (run sys w)) = (files w)(file_path \<mapsto> raw)"
      by (simp add: r(4) c comp_def)
    then show ?thesis using assms(1) by (simp add: map_upd_triv)
  qed
  show ?thesis
    using r(1,3,4) rt ascii_fixed_content [OF a] same by simp
qed

theorem ascii_text_kept_up_to_newlines_witness:
  "files (world_with [0x68, 0x69]) file_path = Some [0x68, 0x69]
   \<and> (0x68 :: byte) < 0x80 \<and> (0x69 :: byte) < 0x80
   \<and> read_denied (no_faults Windows) = None \<and> write_denied (no_faults Windows) = None
   \<and> write_fails (no_faults Windows) = None
   \<and> 13 \<notin> set [0x68, 0x69 :: byte] \<and> 10 \<notin> set [0x68, 0x69 :: byte]
   \<and> outcome (run (no_faults Windows) (world_with [0x68, 0x69])) = None
   \<and> files (after (run (no_faults Windows) (world_with [0x68, 0x69])))
       = files (world_with [0x68, 0x69])"
proof -
  have h1: "files (world_with [0x68, 0x69]) file_path = Some [0x68, 0x69]"
    by (simp add: world_with_def)
  have h2: "\<forall>b\<in>set [0x68, 0x69 :: byte]. b < 0x80"
    by simp
  have h3: "read_denied (no_faults Windows) = None" and h4: "write_denied (no_faults Windows) = None"
    and h5: "write_fails (no_faults Windows) = None"
    by (simp_all add: no_faults_def)
  have h6: "13 \<notin> set [0x68, 0x69 :: byte]" and h7: "10 \<notin> set [0x68, 0x69 :: byte]"
    by simp_all
  from ascii_text_kept_up_to_newlines [OF h1 h2 h3 h4 h5] h6 h7
  have "outcome (run (no_faults Windows) (world_with [0x68, 0x69])) = None
    \<and> files (after (run (no_faults Windows) (world_with [0x68, 0x69])))
       = files (world_with [0x68, 0x69])"
    by blast
  with h1 h3 h4 h5 h6 h7 show ?thesis by simp
qed

section \<open>The platform\<close>


end
